theory Spec2Isabelle
  imports Complex_Main "HOL-Library.Word"
begin

unbundle bit_operations_syntax

section \<open>The model\<close>

subsection \<open>Symmetry passes\<close>

text \<open>
  \<^verbatim>\<open>bool SCULPT_is_symmetry_iteration_valid(char i, char symm)\<close> of
  \<^verbatim>\<open>sculpt.c\<close>. A C \<^verbatim>\<open>char\<close> is one byte; the comparisons with the constants
  0, 3, 5, 6 and the test that \<^verbatim>\<open>symm & i\<close> is non-zero give the same answer on
  the byte as on its promotion to \<^verbatim>\<open>int\<close>, whatever the signedness of
  \<^verbatim>\<open>char\<close>.
\<close>

definition SCULPT_is_symmetry_iteration_valid :: "8 word \<Rightarrow> 8 word \<Rightarrow> bool" where
  "SCULPT_is_symmetry_iteration_valid i symm =
     (i = 0 \<or> (symm AND i \<noteq> 0 \<and> (symm \<noteq> 5 \<or> i \<noteq> 3) \<and> (symm \<noteq> 6 \<or> (i \<noteq> 3 \<and> i \<noteq> 5))))"

subsection \<open>Flood fill\<close>

text \<open>
  A vertex reference \<^verbatim>\<open>PBVHVertRef\<close> is a struct holding one \<^verbatim>\<open>intptr_t i\<close>: a dense
  index for the face and grid backends, the address of the vertex for the dynamic mesh.
\<close>

type_synonym PBVHVertRef = int

text \<open>
  Where C leaves the behaviour undefined the model stops with a fault: a read or write
  outside of a bitmap, \<^verbatim>\<open>abs(INT_MIN)\<close>, and (to make it visible) a division by zero.
  The visited set of the flood fill is a bitmap of \<^verbatim>\<open>vertex_count\<close> bits.
\<close>

datatype fault = Bitmap_out_of_range | Signed_overflow | Division_by_zero

definition BLI_BITMAP_TEST :: "bool list \<Rightarrow> int \<Rightarrow> fault + bool" where
  "BLI_BITMAP_TEST bitmap index =
     (if 0 \<le> index \<and> index < int (length bitmap) then Inr (bitmap ! nat index)
      else Inl Bitmap_out_of_range)"

definition BLI_BITMAP_ENABLE :: "bool list \<Rightarrow> int \<Rightarrow> fault + bool list" where
  "BLI_BITMAP_ENABLE bitmap index =
     (if 0 \<le> index \<and> index < int (length bitmap) then Inr (bitmap[nat index := True])
      else Inl Bitmap_out_of_range)"

record SculptFloodFill =
  queue :: "PBVHVertRef list"
  visited_vertices :: "bool list"

text \<open>
  What the flood fill reads from the session, of type \<open>'w\<close> (the \<^verbatim>\<open>SculptSession\<close>
  together with the callback's \<^verbatim>\<open>userdata\<close>):
  \<^item> \<open>vertex_to_index\<close> is \<^verbatim>\<open>BKE_pbvh_vertex_to_index\<close>;
  \<^item> \<open>neighbors_iter s v\<close> is the sequence of \<^verbatim>\<open>(ni.vertex, ni.is_duplicate)\<close> that
    \<^verbatim>\<open>SCULPT_VERTEX_DUPLICATES_AND_NEIGHBORS_ITER_BEGIN (ss, v, ni)\<close> runs through, which
    is computed when the iteration begins;
  \<^item> \<open>vertex_visible_get\<close> is \<^verbatim>\<open>SCULPT_vertex_visible_get\<close>.
\<close>

record 'w flood_env =
  vertex_to_index :: "PBVHVertRef \<Rightarrow> int"
  neighbors_iter :: "'w \<Rightarrow> PBVHVertRef \<Rightarrow> (PBVHVertRef \<times> bool) list"
  vertex_visible_get :: "'w \<Rightarrow> PBVHVertRef \<Rightarrow> bool"

text \<open>
  The run of a flood fill is the \<^verbatim>\<open>SculptFloodFill\<close> struct, the session, and two
  logs that the C code does not keep: every invocation of the callback (with the session
  and the bitmap at that moment) and every vertex pushed by \<^verbatim>\<open>SCULPT_floodfill_execute\<close>.
\<close>

record 'w flood_call =
  call_ss :: 'w
  call_from :: PBVHVertRef
  call_to :: PBVHVertRef
  call_is_duplicate :: bool
  call_visited :: "bool list"

record 'w flood_run = SculptFloodFill +
  ss :: 'w
  calls :: "'w flood_call list"
  pushed :: "PBVHVertRef list"

definition SCULPT_floodfill_init :: "int \<Rightarrow> SculptFloodFill" where
  "SCULPT_floodfill_init vertex_count =
     \<lparr>queue = [], visited_vertices = replicate (nat vertex_count) False\<rparr>"

definition SCULPT_floodfill_add_initial :: "PBVHVertRef \<Rightarrow> SculptFloodFill \<Rightarrow> SculptFloodFill" where
  "SCULPT_floodfill_add_initial vertex flood = flood\<lparr>queue := queue flood @ [vertex]\<rparr>"

text \<open>
  The callback \<^verbatim>\<open>func(ss, from_v, to_v, is_duplicate, userdata)\<close> returns whether to
  expand from \<^verbatim>\<open>to_v\<close> and may change the session and its user data.
  \<open>floodfill_visit\<close> is the body of the loop over the neighbours,
  \<open>floodfill_visit_neighbors\<close> that loop, and \<open>SCULPT_floodfill_execute\<close> the loop
  \<^verbatim>\<open>while (!BLI_gsqueue_is_empty(flood->queue))\<close>, whose result is \<open>None\<close> if it
  runs forever.
\<close>

type_synonym 'w flood_callback = "'w \<Rightarrow> PBVHVertRef \<Rightarrow> PBVHVertRef \<Rightarrow> bool \<Rightarrow> bool \<times> 'w"

definition floodfill_visit ::
  "'w flood_env \<Rightarrow> 'w flood_callback \<Rightarrow> PBVHVertRef \<Rightarrow> PBVHVertRef \<times> bool \<Rightarrow>
   'w flood_run \<Rightarrow> fault + 'w flood_run" where
  "floodfill_visit E func from_v ni r =
     (let to_v = fst ni; is_duplicate = snd ni;
          to_index = vertex_to_index E to_v
      in case BLI_BITMAP_TEST (visited_vertices r) to_index of
           Inl e \<Rightarrow> Inl e
         | Inr is_visited \<Rightarrow>
             if is_visited then Inr r
             else if \<not> vertex_visible_get E (ss r) to_v then Inr r
             else
               (case BLI_BITMAP_ENABLE (visited_vertices r) to_index of
                  Inl e \<Rightarrow> Inl e
                | Inr bitmap \<Rightarrow>
                    (let (expand, ss') = func (ss r) from_v to_v is_duplicate;
                         r1 = r\<lparr>visited_vertices := bitmap, ss := ss',
                                calls := calls r @
                                  [\<lparr>call_ss = ss r, call_from = from_v, call_to = to_v,
                                    call_is_duplicate = is_duplicate, call_visited = bitmap\<rparr>]\<rparr>
                     in if expand
                        then Inr (r1\<lparr>queue := queue r1 @ [to_v], pushed := pushed r1 @ [to_v]\<rparr>)
                        else Inr r1)))"

fun floodfill_visit_neighbors ::
  "'w flood_env \<Rightarrow> 'w flood_callback \<Rightarrow> PBVHVertRef \<Rightarrow> (PBVHVertRef \<times> bool) list \<Rightarrow>
   'w flood_run \<Rightarrow> fault + 'w flood_run" where
  "floodfill_visit_neighbors E func from_v [] r = Inr r"
| "floodfill_visit_neighbors E func from_v (ni # rest) r =
     (case floodfill_visit E func from_v ni r of
        Inl e \<Rightarrow> Inl e
      | Inr r' \<Rightarrow> floodfill_visit_neighbors E func from_v rest r')"

partial_function (option) SCULPT_floodfill_execute ::
  "'w flood_env \<Rightarrow> 'w flood_callback \<Rightarrow> 'w flood_run \<Rightarrow> (fault + 'w flood_run) option" where
  "SCULPT_floodfill_execute E func r =
     (case queue r of
        [] \<Rightarrow> Some (Inr r)
      | from_v # rest \<Rightarrow>
          (case floodfill_visit_neighbors E func from_v (neighbors_iter E (ss r) from_v)
                  (r\<lparr>queue := rest\<rparr>) of
             Inl e \<Rightarrow> Some (Inl e)
           | Inr r' \<Rightarrow> SCULPT_floodfill_execute E func r'))"

definition floodfill_start :: "SculptFloodFill \<Rightarrow> 'w \<Rightarrow> 'w flood_run" where
  "floodfill_start flood s = SculptFloodFill.extend flood \<lparr>ss = s, calls = [], pushed = []\<rparr>"

declare SCULPT_floodfill_execute.simps [code]

text \<open>The invariant of the loop, relative to the bitmap \<open>v0\<close> the run started with.\<close>

definition bitmap_unset_count :: "bool list \<Rightarrow> nat" where
  "bitmap_unset_count bitmap = length (filter (\<lambda>b. \<not> b) bitmap)"

definition flood_inv :: "'w flood_env \<Rightarrow> bool list \<Rightarrow> 'w flood_run \<Rightarrow> bool" where
  "flood_inv E v0 r \<longleftrightarrow>
     length (visited_vertices r) = length v0 \<and>
     (\<forall>i < length v0. v0 ! i \<longrightarrow> visited_vertices r ! i) \<and>
     distinct (map (\<lambda>c. vertex_to_index E (call_to c)) (calls r)) \<and>
     (\<forall>c \<in> set (calls r).
        vertex_visible_get E (call_ss c) (call_to c) \<and>
        0 \<le> vertex_to_index E (call_to c) \<and>
        vertex_to_index E (call_to c) < int (length v0) \<and>
        \<not> v0 ! nat (vertex_to_index E (call_to c)) \<and>
        length (call_visited c) = length v0 \<and>
        call_visited c ! nat (vertex_to_index E (call_to c)) \<and>
        visited_vertices r ! nat (vertex_to_index E (call_to c))) \<and>
     set (pushed r) \<subseteq> call_to ` set (calls r) \<and>
     distinct (map (vertex_to_index E) (pushed r))"

definition neighbors_in_range :: "'w flood_env \<Rightarrow> nat \<Rightarrow> bool" where
  "neighbors_in_range E n \<longleftrightarrow>
     (\<forall>s v. \<forall>(to_v, d) \<in> set (neighbors_iter E s v).
        0 \<le> vertex_to_index E to_v \<and> vertex_to_index E to_v < int n)"

definition flood_measure :: "'w flood_run \<Rightarrow> nat" where
  "flood_measure r = bitmap_unset_count (visited_vertices r) + length (queue r)"

text \<open>
  A session to run the model on: four vertices, a seam duplicate of vertex 1 among the
  neighbours of vertex 0, and vertex 3 hidden.
\<close>

definition flood_example_env :: "nat flood_env" where
  "flood_example_env =
     \<lparr>vertex_to_index = (\<lambda>v. v),
      neighbors_iter = (\<lambda>s v.
         if v = 0 then [(1, False), (2, False), (1, True)]
         else if v = 1 then [(0, False), (2, False)]
         else if v = 2 then [(0, False), (1, False), (3, False)]
         else [(2, False)]),
      vertex_visible_get = (\<lambda>s v. v \<noteq> 3)\<rparr>"

definition flood_example_cb :: "nat flood_callback" where
  "flood_example_cb s from_v to_v is_duplicate = (True, Suc s)"

definition flood_example_start :: "nat flood_run" where
  "flood_example_start =
     floodfill_start (SCULPT_floodfill_add_initial 0 (SCULPT_floodfill_init 4)) 0"

subsection \<open>Brush geometry tests\<close>

text \<open>
  A C \<^verbatim>\<open>float\<close> is modelled as a real number: the tests below are statements about
  the geometry of the brush, and rounding is not modelled. A vector \<^verbatim>\<open>float[3]\<close> is a
  triple; a matrix \<^verbatim>\<open>float[4][4]\<close> or \<^verbatim>\<open>float[3][3]\<close> is modelled by the map that
  \<^verbatim>\<open>mul_v3_m4v3\<close>, \<^verbatim>\<open>mul_m4_v3\<close> and \<^verbatim>\<open>mul_m3_v3\<close> apply to a point.
\<close>

type_synonym vec3 = "real \<times> real \<times> real"
type_synonym mat4 = "vec3 \<Rightarrow> vec3"
type_synonym mat3 = "vec3 \<Rightarrow> vec3"

text \<open>
  Modelled from the spec: \<^verbatim>\<open>len_squared_v3v3\<close>, \<^verbatim>\<open>len_v2v2\<close>, \<^verbatim>\<open>min_ff\<close> and
  \<^verbatim>\<open>max_ff\<close> are helpers of the math library, which is not among the sources: the
  squared Euclidean distance of two points, the Euclidean distance of their first two
  coordinates, and the minimum and maximum of two floats.
\<close>

definition len_squared_v3v3 :: "vec3 \<Rightarrow> vec3 \<Rightarrow> real" where
  "len_squared_v3v3 a b =
     (case a of (ax, ay, az) \<Rightarrow> case b of (bx, by, bz) \<Rightarrow>
        (ax - bx) * (ax - bx) + (ay - by) * (ay - by) + (az - bz) * (az - bz))"

definition len_v2v2 :: "vec3 \<Rightarrow> vec3 \<Rightarrow> real" where
  "len_v2v2 a b =
     (case a of (ax, ay, az) \<Rightarrow> case b of (bx, by, bz) \<Rightarrow>
        sqrt ((ax - bx) * (ax - bx) + (ay - by) * (ay - by)))"

definition min_ff :: "real \<Rightarrow> real \<Rightarrow> real" where
  "min_ff a b = (if a < b then a else b)"

definition max_ff :: "real \<Rightarrow> real \<Rightarrow> real" where
  "max_ff a b = (if a > b then a else b)"

text \<open>
  Division, with a zero divisor made visible: the model of a function that divides
  returns a fault instead of the quotient.
\<close>

definition float_div :: "real \<Rightarrow> real \<Rightarrow> fault + real" where
  "float_div a b = (if b = 0 then Inl Division_by_zero else Inr (a / b))"

text \<open>
  Functions and constants of other modules that the brush tests and the symmetry feather
  use: \<^verbatim>\<open>flip_v3_v3\<close>, \<^verbatim>\<open>ED_view3d_clipping_test\<close>,
  \<^verbatim>\<open>closest_to_plane_normalized_v3\<close>, \<^verbatim>\<open>axis_angle_to_mat3_single\<close> (the rotation
  about the axis \<^verbatim>\<open>'X'\<close>, \<^verbatim>\<open>'Y'\<close> or \<^verbatim>\<open>'Z'\<close>) and the flag
  \<^verbatim>\<open>PAINT_SYMMETRY_FEATHER\<close>. The type \<open>'rv\<close> stands for \<^verbatim>\<open>RegionView3D\<close>.
\<close>

record 'rv brush_extern =
  flip_v3_v3 :: "vec3 \<Rightarrow> 8 word \<Rightarrow> vec3"
  ED_view3d_clipping_test :: "'rv \<Rightarrow> vec3 \<Rightarrow> bool \<Rightarrow> bool"
  closest_to_plane_normalized_v3 :: "real \<times> real \<times> real \<times> real \<Rightarrow> vec3 \<Rightarrow> vec3"
  axis_angle_to_mat3_single :: "8 word \<Rightarrow> real \<Rightarrow> mat3"
  PAINT_SYMMETRY_FEATHER :: "32 word"

text \<open>
  The fields of \<^verbatim>\<open>SculptBrushTest\<close> that the test functions read or write; the field
  \<^verbatim>\<open>dist\<close> is named \<open>dist_test\<close> here. \<open>clip_rv3d\<close> is \<open>None\<close> for the null pointer.
  A test function returns its verdict and the updated test.
\<close>

record 'rv SculptBrushTest =
  radius_squared :: real
  radius :: real
  location :: vec3
  dist_test :: real
  mirror_symmetry_pass :: "8 word"
  radial_symmetry_pass :: int
  symm_rot_mat_inv :: mat4
  plane_view :: "real \<times> real \<times> real \<times> real"
  clip_rv3d :: "'rv option"
  cube_matrix :: mat4
  tip_roundness :: real

definition sculpt_brush_test_clipping :: "'rv brush_extern \<Rightarrow> 'rv SculptBrushTest \<Rightarrow> vec3 \<Rightarrow> bool" where
  "sculpt_brush_test_clipping X test co =
     (case clip_rv3d test of
        None \<Rightarrow> False
      | Some rv3d \<Rightarrow>
          (let symm_co = flip_v3_v3 X co (mirror_symmetry_pass test);
               symm_co = (if radial_symmetry_pass test \<noteq> 0 then symm_rot_mat_inv test symm_co
                          else symm_co)
           in ED_view3d_clipping_test X rv3d symm_co True))"





definition SCULPT_brush_test_cube ::
  "'rv brush_extern \<Rightarrow> 'rv SculptBrushTest \<Rightarrow> vec3 \<Rightarrow> mat4 \<Rightarrow> real \<Rightarrow> bool \<Rightarrow>
   fault + bool \<times> 'rv SculptBrushTest" where
  "SCULPT_brush_test_cube X test co local roundness test_z =
     (let side = 1 in
      if sculpt_brush_test_clipping X test co then Inr (False, test)
      else
        (case local co of (lx, ly, lz) \<Rightarrow>
          (let local_co = (\<bar>lx\<bar>, \<bar>ly\<bar>, \<bar>lz\<bar>);
               x = \<bar>lx\<bar>; y = \<bar>ly\<bar>; z = \<bar>lz\<bar>;
               side = side + (1 - side) * roundness;
               hardness = 1 - roundness;
               constant_side = hardness * side;
               falloff_side = roundness * side
           in if \<not> (x \<le> side \<and> y \<le> side \<and> (\<not> test_z \<or> z \<le> side)) then Inr (False, test)
              else if min_ff x y > constant_side then
                (let r_point = (constant_side, constant_side, constant_side) in
                 case float_div (len_v2v2 r_point local_co) falloff_side of
                   Inl e \<Rightarrow> Inl e
                 | Inr d \<Rightarrow> Inr (True, test\<lparr>dist_test := d\<rparr>))
              else if max_ff x y > constant_side then
                (case float_div (max_ff x y - constant_side) falloff_side of
                   Inl e \<Rightarrow> Inl e
                 | Inr d \<Rightarrow> Inr (True, test\<lparr>dist_test := d\<rparr>))
              else Inr (True, test\<lparr>dist_test := 0\<rparr>))))"



text \<open>
  The rule of the specification for the cube test, on the absolute in-plane local
  coordinates \<open>x\<close> and \<open>y\<close>: the hardness threshold is \<open>1 - roundness\<close> and the falloff
  side is \<open>roundness\<close>; the corner formula is the Euclidean distance to the centre of the
  corner circle over the falloff side, the side formula is linear in the one coordinate
  beyond the threshold, and the core has distance 0.
\<close>

definition cube_corner_distance :: "real \<Rightarrow> real \<Rightarrow> real \<Rightarrow> real" where
  "cube_corner_distance roundness x y =
     sqrt ((x - (1 - roundness))\<^sup>2 + (y - (1 - roundness))\<^sup>2) / roundness"

definition cube_side_distance :: "real \<Rightarrow> real \<Rightarrow> real" where
  "cube_side_distance roundness x = (x - (1 - roundness)) / roundness"

definition cube_distance_rule :: "real \<Rightarrow> real \<Rightarrow> real \<Rightarrow> real" where
  "cube_distance_rule roundness x y =
     (if x > 1 - roundness \<and> y > 1 - roundness then cube_corner_distance roundness x y
      else if x > 1 - roundness then cube_side_distance roundness x
      else if y > 1 - roundness then cube_side_distance roundness y
      else 0)"

text \<open>A brush at the origin without clipping planes, to run the tests on.\<close>

definition brush_example_extern :: "unit brush_extern" where
  "brush_example_extern =
     \<lparr>flip_v3_v3 = (\<lambda>v symm. v),
      ED_view3d_clipping_test = (\<lambda>rv3d co is_local. False),
      closest_to_plane_normalized_v3 = (\<lambda>plane co. co),
      axis_angle_to_mat3_single = (\<lambda>axis angle co. co),
      PAINT_SYMMETRY_FEATHER = 8\<rparr>"

definition brush_example_test :: "real \<Rightarrow> unit SculptBrushTest" where
  "brush_example_test r =
     \<lparr>radius_squared = r * r, radius = r, location = (0, 0, 0), dist_test = 0,
      mirror_symmetry_pass = 0, radial_symmetry_pass = 0, symm_rot_mat_inv = (\<lambda>v. v),
      plane_view = (0, 0, 0, 0), clip_rv3d = None, cube_matrix = (\<lambda>v. v),
      tip_roundness = 1 / 2\<rparr>"

subsection \<open>Face sets and fake neighbours\<close>

text \<open>
  A C \<^verbatim>\<open>int\<close> is a 32-bit word read as two's complement. \<^verbatim>\<open>abs\<close> of
  \<^verbatim>\<open><stdlib.h>\<close> is undefined at \<^verbatim>\<open>INT_MIN\<close>, whose negation is not an \<^verbatim>\<open>int\<close>.
\<close>

definition INT_MIN :: "32 word" where
  "INT_MIN = - (2 ^ 31)"

definition c_abs :: "32 word \<Rightarrow> fault + 32 word" where
  "c_abs j = (if j = INT_MIN then Inl Signed_overflow else Inr (if j <s 0 then - j else j))"

text \<open>
  Modelled from the spec: \<^verbatim>\<open>SCULPT_FACE_SET_NONE\<close> is declared in a header that is not
  among the sources; the face-set ID 0 is the one reserved for unassigned faces.
\<close>

definition SCULPT_FACE_SET_NONE :: "32 word" where
  "SCULPT_FACE_SET_NONE = 0"

text \<open>
  Modelled from the spec: the sentinels \<^verbatim>\<open>PBVH_REF_NONE\<close> (no vertex) and
  \<^verbatim>\<open>FAKE_NEIGHBOR_NONE\<close> (no fake neighbour assigned) are declared in headers that are
  not among the sources. Their value is the \<^verbatim>\<open>-1\<close> that \<^verbatim>\<open>SCULPT_fake_neighbor_search\<close>
  itself stores for "nothing found" and its caller compares with \<^verbatim>\<open>PBVH_REF_NONE\<close>.
\<close>

definition PBVH_REF_NONE :: PBVHVertRef where
  "PBVH_REF_NONE = - 1"

definition FAKE_NEIGHBOR_NONE :: int where
  "FAKE_NEIGHBOR_NONE = - 1"

text \<open>
  The part of the mesh and of \<^verbatim>\<open>SculptSession\<close> that the functions below read and
  write. A C array is a function from its indices; \<^verbatim>\<open>pmap\<close> maps a vertex to the
  indices of its polygons (\<^verbatim>\<open>MeshElemMap\<close>: \<^verbatim>\<open>indices[0..count-1]\<close>). The field
  \<^verbatim>\<open>v\<close> and \<^verbatim>\<open>e\<close> of \<^verbatim>\<open>MLoop\<close> are named \<open>loop_v\<close> and \<open>loop_e\<close>. A face of the
  dynamic mesh is its custom-data block, a function from the offset of a layer to the
  \<^verbatim>\<open>int\<close> stored there (\<^verbatim>\<open>BM_ELEM_CD_GET_INT\<close>); \<open>pdata_faceset_offset\<close> is what
  \<^verbatim>\<open>CustomData_get_offset(&bm->pdata, CD_SCULPT_FACE_SETS)\<close> returns, negative when the
  mesh has no face-set layer. \<open>BM_elem_index_get\<close> reads the index stored in the vertex
  that a reference of the dynamic mesh points to. \<open>connected_component\<close> is \<open>None\<close> for
  the null pointer.
\<close>

datatype PBVHType = PBVH_FACES | PBVH_GRIDS | PBVH_BMESH

record MPoly =
  loopstart :: int
  totloop :: int

record MLoop =
  loop_v :: int
  loop_e :: int

record BMesh =
  pdata_faceset_offset :: int
  bm_faces :: "(int \<Rightarrow> 32 word) list"

record SculptSession =
  pbvh_type :: PBVHType
  totfaces :: int
  face_sets :: "int \<Rightarrow> 32 word"
  pmap :: "int \<Rightarrow> int list"
  mpoly :: "int \<Rightarrow> MPoly"
  mloop :: "int \<Rightarrow> MLoop"
  bm :: "BMesh option"
  cd_faceset_offset :: int
  BM_elem_index_get :: "PBVHVertRef \<Rightarrow> int"
  fake_neighbor_index :: "int \<Rightarrow> PBVHVertRef"
  current_max_distance :: real
  connected_component :: "(int \<Rightarrow> int) option"

text \<open>
  \<^verbatim>\<open>SCULPT_face_sets_visibility_all_set\<close>. \<open>face_set_visibility_value\<close> is what one
  pass of either loop does to the face-set value of one face. Marking the node of a face
  for a triangulation update, which the loop over the dynamic mesh also does, writes to the
  PBVH only and is left out.
\<close>

definition face_set_visibility_value :: "bool \<Rightarrow> 32 word \<Rightarrow> fault + 32 word" where
  "face_set_visibility_value visible fset =
     (let fset = (if fset = SCULPT_FACE_SET_NONE then 1 else fset) in
      case c_abs fset of
        Inl e \<Rightarrow> Inl e
      | Inr a \<Rightarrow> Inr (if visible then a else - a))"

fun face_sets_visibility_loop ::
  "bool \<Rightarrow> nat list \<Rightarrow> (int \<Rightarrow> 32 word) \<Rightarrow> fault + (int \<Rightarrow> 32 word)" where
  "face_sets_visibility_loop visible [] fsets = Inr fsets"
| "face_sets_visibility_loop visible (i # rest) fsets =
     (case face_set_visibility_value visible (fsets (int i)) of
        Inl e \<Rightarrow> Inl e
      | Inr fset \<Rightarrow> face_sets_visibility_loop visible rest (fsets(int i := fset)))"

fun bm_faces_visibility_loop ::
  "bool \<Rightarrow> int \<Rightarrow> (int \<Rightarrow> 32 word) list \<Rightarrow> fault + (int \<Rightarrow> 32 word) list" where
  "bm_faces_visibility_loop visible offset [] = Inr []"
| "bm_faces_visibility_loop visible offset (f # rest) =
     (case face_set_visibility_value visible (f offset) of
        Inl e \<Rightarrow> Inl e
      | Inr fset \<Rightarrow>
          (case bm_faces_visibility_loop visible offset rest of
             Inl e \<Rightarrow> Inl e
           | Inr rest' \<Rightarrow> Inr (f(offset := fset) # rest')))"

definition SCULPT_face_sets_visibility_all_set :: "SculptSession \<Rightarrow> bool \<Rightarrow> fault + SculptSession" where
  "SCULPT_face_sets_visibility_all_set s visible =
     (case pbvh_type s of
        PBVH_BMESH \<Rightarrow>
          (case bm s of
             None \<Rightarrow> Inr s
           | Some b \<Rightarrow>
               (let s1 = (if cd_faceset_offset s < 0
                          then s\<lparr>cd_faceset_offset := pdata_faceset_offset b\<rparr> else s)
                in if cd_faceset_offset s1 < 0 then Inr s1
                   else
                     (case bm_faces_visibility_loop visible (cd_faceset_offset s1) (bm_faces b) of
                        Inl e \<Rightarrow> Inl e
                      | Inr faces \<Rightarrow> Inr (s1\<lparr>bm := Some (b\<lparr>bm_faces := faces\<rparr>)\<rparr>))))
      | _ \<Rightarrow>
          (case face_sets_visibility_loop visible [0..<nat (totfaces s)] (face_sets s) of
             Inl e \<Rightarrow> Inl e
           | Inr fsets \<Rightarrow> Inr (s\<lparr>face_sets := fsets\<rparr>)))"

text \<open>
  The face-set values a session holds, one per face: none for a dynamic mesh that is
  absent or has no face-set layer. \<open>face_set_all_set_spec\<close> is the value the
  specification asks for: ID 0 becomes ID 1, then the sign is set.
\<close>

definition session_face_set_values :: "SculptSession \<Rightarrow> 32 word list" where
  "session_face_set_values s =
     (case pbvh_type s of
        PBVH_BMESH \<Rightarrow>
          (case bm s of
             None \<Rightarrow> []
           | Some b \<Rightarrow>
               (let offset = (if cd_faceset_offset s < 0 then pdata_faceset_offset b
                              else cd_faceset_offset s)
                in if offset < 0 then [] else map (\<lambda>f. f offset) (bm_faces b)))
      | _ \<Rightarrow> map (\<lambda>i. face_sets s (int i)) [0..<nat (totfaces s)])"

definition face_set_all_set_spec :: "bool \<Rightarrow> 32 word \<Rightarrow> int" where
  "face_set_all_set_spec visible fset =
     (let face_id = (if fset = 0 then 1 else \<bar>sint fset\<bar>) in
      if visible then face_id else - face_id)"

text \<open>
  Modelled from the spec: \<^verbatim>\<open>BKE_pbvh_vertex_to_index\<close> is not among the sources. For the
  face and grid backends a vertex reference is a dense integer index; for the dynamic
  mesh it is the address of a vertex, whose index \<^verbatim>\<open>BM_elem_index_get\<close> reads (as
  \<^verbatim>\<open>SCULPT_fake_neighbor_add\<close> does in line).
\<close>

definition BKE_pbvh_vertex_to_index :: "SculptSession \<Rightarrow> PBVHVertRef \<Rightarrow> int" where
  "BKE_pbvh_vertex_to_index s vertex =
     (if pbvh_type s = PBVH_BMESH then BM_elem_index_get s vertex else vertex)"

text \<open>
  \<^verbatim>\<open>sculpt_check_unique_face_set_in_base_mesh\<close> and
  \<^verbatim>\<open>sculpt_check_unique_face_set_for_edge_in_base_mesh\<close>. \<open>edge_face_in_poly\<close> is the
  loop over the corners of one polygon (with its two \<^verbatim>\<open>break\<close>s), \<open>edge_faces\<close> the
  loop over the polygons of \<^verbatim>\<open>v1\<close>.
\<close>

fun check_unique_face_set_loop :: "(int \<Rightarrow> 32 word) \<Rightarrow> int list \<Rightarrow> 32 word \<Rightarrow> fault + bool" where
  "check_unique_face_set_loop fsets [] face_set = Inr True"
| "check_unique_face_set_loop fsets (p # rest) face_set =
     (if face_set = - 1 then
        (case c_abs (fsets p) of
           Inl e \<Rightarrow> Inl e
         | Inr a \<Rightarrow> check_unique_face_set_loop fsets rest a)
      else
        (case c_abs (fsets p) of
           Inl e \<Rightarrow> Inl e
         | Inr a \<Rightarrow>
             if a \<noteq> face_set then Inr False
             else check_unique_face_set_loop fsets rest face_set))"

definition sculpt_check_unique_face_set_in_base_mesh :: "SculptSession \<Rightarrow> PBVHVertRef \<Rightarrow> fault + bool" where
  "sculpt_check_unique_face_set_in_base_mesh s vertex =
     (let index = BKE_pbvh_vertex_to_index s vertex in
      check_unique_face_set_loop (face_sets s) (pmap s index) (- 1))"

definition poly_loops :: "SculptSession \<Rightarrow> int \<Rightarrow> MLoop list" where
  "poly_loops s poly =
     map (\<lambda>l. mloop s (loopstart (mpoly s poly) + int l)) [0..<nat (totloop (mpoly s poly))]"

fun edge_face_in_poly :: "int \<Rightarrow> int \<Rightarrow> MLoop list \<Rightarrow> int \<times> int \<Rightarrow> int \<times> int" where
  "edge_face_in_poly v2 poly [] (p1, p2) = (p1, p2)"
| "edge_face_in_poly v2 poly (loop # rest) (p1, p2) =
     (if loop_v loop = v2 then
        (if p1 = - 1 then (poly, p2)
         else if p2 = - 1 then (p1, poly)
         else edge_face_in_poly v2 poly rest (p1, p2))
      else edge_face_in_poly v2 poly rest (p1, p2))"

fun edge_faces :: "SculptSession \<Rightarrow> int \<Rightarrow> int list \<Rightarrow> int \<times> int \<Rightarrow> int \<times> int" where
  "edge_faces s v2 [] pp = pp"
| "edge_faces s v2 (poly # rest) pp =
     edge_faces s v2 rest (edge_face_in_poly v2 poly (poly_loops s poly) pp)"

definition sculpt_check_unique_face_set_for_edge_in_base_mesh ::
  "SculptSession \<Rightarrow> int \<Rightarrow> int \<Rightarrow> fault + bool" where
  "sculpt_check_unique_face_set_for_edge_in_base_mesh s v1 v2 =
     (case edge_faces s v2 (pmap s v1) (- 1, - 1) of
        (p1, p2) \<Rightarrow>
          if p1 \<noteq> - 1 \<and> p2 \<noteq> - 1 then
            (case c_abs (face_sets s p1) of
               Inl e \<Rightarrow> Inl e
             | Inr a \<Rightarrow> Inr (a = face_sets s p2))
          else Inr True)"

text \<open>
  A mesh to run the model on: the triangles 0 = (0, 1, 2) and 1 = (1, 0, 3) share the edge
  between the vertices 0 and 1; face 0 is in face set 1 and visible, face 1 in face set 1
  and hidden.
\<close>

definition example_session :: SculptSession where
  "example_session =
     \<lparr>pbvh_type = PBVH_FACES, totfaces = 2,
      face_sets = (\<lambda>i. if i = 0 then 1 else if i = 1 then - 1 else 0),
      pmap = (\<lambda>v. if v = 0 \<or> v = 1 then [0, 1] else if v = 2 then [0] else if v = 3 then [1] else []),
      mpoly = (\<lambda>p. if p = 0 then \<lparr>loopstart = 0, totloop = 3\<rparr> else \<lparr>loopstart = 3, totloop = 3\<rparr>),
      mloop = (\<lambda>l. \<lparr>loop_v = (if l = 0 then 0 else if l = 1 then 1 else if l = 2 then 2
                               else if l = 3 then 1 else if l = 4 then 0 else 3),
                     loop_e = l\<rparr>),
      bm = None, cd_faceset_offset = - 1, BM_elem_index_get = (\<lambda>v. v),
      fake_neighbor_index = (\<lambda>i. FAKE_NEIGHBOR_NONE), current_max_distance = 0,
      connected_component = None\<rparr>"

text \<open>The same mesh with three faces: one unassigned, one hidden, one visible.\<close>

definition example_face_sets :: SculptSession where
  "example_face_sets =
     example_session\<lparr>totfaces := 3,
       face_sets := (\<lambda>i. if i = 0 then 0 else if i = 1 then - 5 else 7)\<rparr>"

text \<open>
  The fake-neighbour table, which \<^verbatim>\<open>SCULPT_fake_neighbor_init\<close> allocates and fills
  with \<^verbatim>\<open>FAKE_NEIGHBOR_NONE\<close>; the cast of a vertex reference to \<^verbatim>\<open>int\<close> in
  \<^verbatim>\<open>SCULPT_fake_neighbor_add\<close> is the identity on the indices of a mesh.
  \<open>fake_neighbor_add_calls\<close> is a sequence of calls of
  \<^verbatim>\<open>SCULPT_fake_neighbor_add\<close>; \<open>fake_neighbor_calls_fresh\<close> says of such a sequence that
  every call is on two vertices (not the sentinel) and that the second vertex has no fake
  neighbour when the call assigns one to the first, which is what
  \<^verbatim>\<open>SCULPT_fake_neighbors_ensure\<close> guarantees by taking the second vertex from
  \<^verbatim>\<open>SCULPT_fake_neighbor_search\<close>.
\<close>

definition SCULPT_fake_neighbor_init :: "SculptSession \<Rightarrow> real \<Rightarrow> SculptSession" where
  "SCULPT_fake_neighbor_init s max_dist =
     s\<lparr>fake_neighbor_index := (\<lambda>i. FAKE_NEIGHBOR_NONE), current_max_distance := max_dist\<rparr>"

definition SCULPT_fake_neighbor_add :: "SculptSession \<Rightarrow> PBVHVertRef \<Rightarrow> PBVHVertRef \<Rightarrow> SculptSession" where
  "SCULPT_fake_neighbor_add s v_index_a v_index_b =
     (let tablea = (if pbvh_type s = PBVH_BMESH then BM_elem_index_get s v_index_a else v_index_a);
          tableb = (if pbvh_type s = PBVH_BMESH then BM_elem_index_get s v_index_b else v_index_b)
      in if fake_neighbor_index s tablea = FAKE_NEIGHBOR_NONE
         then s\<lparr>fake_neighbor_index :=
                  (fake_neighbor_index s)(tablea := v_index_b, tableb := v_index_a)\<rparr>
         else s)"

fun fake_neighbor_add_calls :: "SculptSession \<Rightarrow> (PBVHVertRef \<times> PBVHVertRef) list \<Rightarrow> SculptSession" where
  "fake_neighbor_add_calls s [] = s"
| "fake_neighbor_add_calls s ((a, b) # rest) =
     fake_neighbor_add_calls (SCULPT_fake_neighbor_add s a b) rest"

fun fake_neighbor_calls_fresh :: "SculptSession \<Rightarrow> (PBVHVertRef \<times> PBVHVertRef) list \<Rightarrow> bool" where
  "fake_neighbor_calls_fresh s [] = True"
| "fake_neighbor_calls_fresh s ((a, b) # rest) =
     (a \<noteq> PBVH_REF_NONE \<and> b \<noteq> PBVH_REF_NONE \<and>
      (fake_neighbor_index s (BKE_pbvh_vertex_to_index s a) = FAKE_NEIGHBOR_NONE \<longrightarrow>
       fake_neighbor_index s (BKE_pbvh_vertex_to_index s b) = FAKE_NEIGHBOR_NONE) \<and>
      fake_neighbor_calls_fresh (SCULPT_fake_neighbor_add s a b) rest)"

definition fake_neighbors_linked :: "SculptSession \<Rightarrow> bool" where
  "fake_neighbors_linked s \<longleftrightarrow>
     (\<forall>a b. fake_neighbor_index s (BKE_pbvh_vertex_to_index s a) = b \<and> b \<noteq> FAKE_NEIGHBOR_NONE \<longrightarrow>
        fake_neighbor_index s (BKE_pbvh_vertex_to_index s b) = a) \<and>
     fake_neighbor_index s (BKE_pbvh_vertex_to_index s PBVH_REF_NONE) = FAKE_NEIGHBOR_NONE"

subsection \<open>Fake-neighbour search\<close>

text \<open>
  \<^verbatim>\<open>SCULPT_fake_neighbor_search\<close>. A PBVH node is the sequence of vertices that
  \<^verbatim>\<open>BKE_pbvh_vertex_iter_begin (..., PBVH_ITER_UNIQUE)\<close> runs through, each with the
  fields \<^verbatim>\<open>vd.vertex\<close>, \<^verbatim>\<open>vd.index\<close> and \<^verbatim>\<open>vd.co\<close> of the iterator.
\<close>

record PBVHVertexIter =
  vd_vertex :: PBVHVertRef
  vd_index :: int
  vd_co :: vec3

type_synonym PBVHNode = "PBVHVertexIter list"

record NearestVertexFakeNeighborTLSData =
  nearest_vertex :: PBVHVertRef
  nearest_vertex_distance_squared :: real
  current_topology_id :: int

definition SCULPT_TOPOLOGY_ID_NONE :: int where
  "SCULPT_TOPOLOGY_ID_NONE = 0"

definition SCULPT_TOPOLOGY_ID_DEFAULT :: int where
  "SCULPT_TOPOLOGY_ID_DEFAULT = 1"

text \<open>\<^verbatim>\<open>FLT_MAX\<close> of \<^verbatim>\<open><float.h>\<close>, the largest finite single-precision float.\<close>

definition FLT_MAX :: real where
  "FLT_MAX = (2 ^ 24 - 1) * 2 ^ 104"

text \<open>
  What the search takes from other modules: the coordinates of a vertex, the nodes that
  \<^verbatim>\<open>BKE_pbvh_search_gather\<close> returns for a sphere, whether
  \<^verbatim>\<open>BKE_pbvh_parallel_range_settings\<close> asks for threads, and how the task library
  distributes the nodes over the workers (\<open>task_chunks\<close>).
\<close>

record search_extern =
  SCULPT_vertex_co_get :: "SculptSession \<Rightarrow> PBVHVertRef \<Rightarrow> vec3"
  BKE_pbvh_search_gather :: "SculptSession \<Rightarrow> vec3 \<Rightarrow> real \<Rightarrow> PBVHNode list"
  use_threading :: bool
  task_chunks :: "PBVHNode list \<Rightarrow> PBVHNode list list"

definition SCULPT_vertex_get_connected_component :: "SculptSession \<Rightarrow> PBVHVertRef \<Rightarrow> int" where
  "SCULPT_vertex_get_connected_component s vertex =
     (let vertex = (if pbvh_type s = PBVH_BMESH then BM_elem_index_get s vertex else vertex) in
      case connected_component s of
        Some component \<Rightarrow> component vertex
      | None \<Rightarrow> SCULPT_TOPOLOGY_ID_DEFAULT)"

definition fake_neighbor_search_vertex ::
  "SculptSession \<Rightarrow> vec3 \<Rightarrow> real \<Rightarrow> NearestVertexFakeNeighborTLSData \<Rightarrow> PBVHVertexIter \<Rightarrow>
   NearestVertexFakeNeighborTLSData" where
  "fake_neighbor_search_vertex s nearest_vertex_search_co max_distance_squared nvtd vd =
     (let vd_topology_id = SCULPT_vertex_get_connected_component s (vd_vertex vd) in
      if vd_topology_id \<noteq> current_topology_id nvtd \<and>
         fake_neighbor_index s (vd_index vd) = FAKE_NEIGHBOR_NONE
      then
        (let distance_squared = len_squared_v3v3 (vd_co vd) nearest_vertex_search_co in
         if distance_squared < nearest_vertex_distance_squared nvtd \<and>
            distance_squared < max_distance_squared
         then nvtd\<lparr>nearest_vertex := vd_vertex vd,
                   nearest_vertex_distance_squared := distance_squared\<rparr>
         else nvtd)
      else nvtd)"

definition do_fake_neighbor_search_task_cb ::
  "SculptSession \<Rightarrow> vec3 \<Rightarrow> real \<Rightarrow> PBVHNode \<Rightarrow> NearestVertexFakeNeighborTLSData \<Rightarrow>
   NearestVertexFakeNeighborTLSData" where
  "do_fake_neighbor_search_task_cb s nearest_vertex_search_co max_distance_squared node nvtd =
     foldl (fake_neighbor_search_vertex s nearest_vertex_search_co max_distance_squared) nvtd node"

definition fake_neighbor_search_reduce ::
  "NearestVertexFakeNeighborTLSData \<Rightarrow> NearestVertexFakeNeighborTLSData \<Rightarrow>
   NearestVertexFakeNeighborTLSData" where
  "fake_neighbor_search_reduce join nvtd =
     (if nearest_vertex join = PBVH_REF_NONE then
        join\<lparr>nearest_vertex := nearest_vertex nvtd,
             nearest_vertex_distance_squared := nearest_vertex_distance_squared nvtd\<rparr>
      else if nearest_vertex_distance_squared nvtd < nearest_vertex_distance_squared join then
        join\<lparr>nearest_vertex := nearest_vertex nvtd,
             nearest_vertex_distance_squared := nearest_vertex_distance_squared nvtd\<rparr>
      else join)"

text \<open>
  Modelled from the spec: \<^verbatim>\<open>BLI_task_parallel_range\<close> belongs to the task library, which
  is not among the sources. Each worker owns a private copy of the reduction state
  (\<^verbatim>\<open>userdata_chunk\<close>), runs the callback on its share of the range, and the copies are
  merged into the caller's chunk by \<^verbatim>\<open>func_reduce\<close> when the workers are done; without
  threads the callback runs over the whole range on the caller's chunk.
\<close>

definition BLI_task_parallel_range ::
  "('n \<Rightarrow> 't \<Rightarrow> 't) \<Rightarrow> ('t \<Rightarrow> 't \<Rightarrow> 't) \<Rightarrow> bool \<Rightarrow> 'n list list \<Rightarrow> 't \<Rightarrow> 't" where
  "BLI_task_parallel_range func func_reduce threaded chunks userdata_chunk =
     (if threaded then
        foldl func_reduce userdata_chunk
          (map (\<lambda>chunk. foldl (\<lambda>tls n. func n tls) userdata_chunk chunk) chunks)
      else foldl (\<lambda>tls n. func n tls) userdata_chunk (concat chunks))"

definition SCULPT_fake_neighbor_search ::
  "search_extern \<Rightarrow> SculptSession \<Rightarrow> PBVHVertRef \<Rightarrow> real \<Rightarrow> PBVHVertRef" where
  "SCULPT_fake_neighbor_search X s vertex max_distance =
     (let nodes = BKE_pbvh_search_gather X s (SCULPT_vertex_co_get X s vertex)
                    (max_distance * max_distance);
          totnode = length nodes
      in if totnode = 0 then PBVH_REF_NONE
         else
           (let max_distance_squared = max_distance * max_distance;
                nearest_vertex_search_co = SCULPT_vertex_co_get X s vertex;
                nvtd = \<lparr>nearest_vertex = - 1, nearest_vertex_distance_squared = FLT_MAX,
                        current_topology_id = SCULPT_vertex_get_connected_component s vertex\<rparr>
            in nearest_vertex
                 (BLI_task_parallel_range
                    (do_fake_neighbor_search_task_cb s nearest_vertex_search_co max_distance_squared)
                    fake_neighbor_search_reduce (use_threading X) (task_chunks X nodes) nvtd)))"

text \<open>
  A candidate for the fake neighbour of \<open>vertex\<close>: a gathered vertex of another connected
  component, without a fake neighbour, strictly within the maximum distance.
  \<open>search_inv\<close> is the invariant of the search on the state of one worker.
\<close>

definition fake_neighbor_candidate ::
  "search_extern \<Rightarrow> SculptSession \<Rightarrow> PBVHVertRef \<Rightarrow> real \<Rightarrow> PBVHVertexIter \<Rightarrow> bool" where
  "fake_neighbor_candidate X s vertex max_distance vd \<longleftrightarrow>
     SCULPT_vertex_get_connected_component s (vd_vertex vd) \<noteq>
       SCULPT_vertex_get_connected_component s vertex \<and>
     fake_neighbor_index s (vd_index vd) = FAKE_NEIGHBOR_NONE \<and>
     len_squared_v3v3 (vd_co vd) (SCULPT_vertex_co_get X s vertex) < max_distance * max_distance"

definition search_gathered :: "search_extern \<Rightarrow> SculptSession \<Rightarrow> PBVHVertRef \<Rightarrow> real \<Rightarrow> PBVHVertexIter set" where
  "search_gathered X s vertex max_distance =
     set (concat (BKE_pbvh_search_gather X s (SCULPT_vertex_co_get X s vertex)
                    (max_distance * max_distance)))"

definition search_inv ::
  "SculptSession \<Rightarrow> vec3 \<Rightarrow> real \<Rightarrow> int \<Rightarrow> PBVHVertexIter set \<Rightarrow>
   NearestVertexFakeNeighborTLSData \<Rightarrow> bool" where
  "search_inv s co max_distance_squared topology_id G t \<longleftrightarrow>
     current_topology_id t = topology_id \<and>
     nearest_vertex_distance_squared t \<le> FLT_MAX \<and>
     (nearest_vertex t = PBVH_REF_NONE \<and> nearest_vertex_distance_squared t = FLT_MAX \<or>
      nearest_vertex_distance_squared t < FLT_MAX \<and>
      (\<exists>vd \<in> G. vd_vertex vd = nearest_vertex t \<and>
         SCULPT_vertex_get_connected_component s (vd_vertex vd) \<noteq> topology_id \<and>
         fake_neighbor_index s (vd_index vd) = FAKE_NEIGHBOR_NONE \<and>
         len_squared_v3v3 (vd_co vd) co < max_distance_squared))"

text \<open>
  A search to run: the vertices 0 and 1 form one component, 2 and 3 the other; 1 and 2
  are fake neighbours already; vertex \<open>i\<close> lies at \<open>(i, 0, 0)\<close>; two nodes, one worker each.
\<close>

definition search_example_session :: SculptSession where
  "search_example_session =
     example_session\<lparr>connected_component := Some (\<lambda>v. if v \<le> 1 then 0 else 1),
       fake_neighbor_index := (\<lambda>i. if i = 2 then 1 else if i = 1 then 2 else FAKE_NEIGHBOR_NONE)\<rparr>"

definition search_example_vertex :: "int \<Rightarrow> PBVHVertexIter" where
  "search_example_vertex i = \<lparr>vd_vertex = i, vd_index = i, vd_co = (real_of_int i, 0, 0)\<rparr>"

definition search_example_extern :: search_extern where
  "search_example_extern =
     \<lparr>SCULPT_vertex_co_get = (\<lambda>s v. (real_of_int v, 0, 0)),
      BKE_pbvh_search_gather = (\<lambda>s center radius_squared.
         [[search_example_vertex 0, search_example_vertex 1],
          [search_example_vertex 2, search_example_vertex 3]]),
      use_threading = True,
      task_chunks = map (\<lambda>node. [node])\<rparr>"

subsection \<open>Symmetry feather\<close>

text \<open>
  The fields of \<^verbatim>\<open>StrokeCache\<close> and \<^verbatim>\<open>Sculpt\<close> that the feather reads: the fields
  \<^verbatim>\<open>radius\<close> and \<^verbatim>\<open>radius_squared\<close> of the cache are named \<open>cache_radius\<close> and
  \<open>cache_radius_squared\<close> here, \<open>symmetry_flags\<close> is \<^verbatim>\<open>sd->paint.symmetry_flags\<close>, and
  \<open>radial_symm\<close> is the array \<^verbatim>\<open>int radial_symm[3]\<close>. The characters \<^verbatim>\<open>'X'\<close>,
  \<^verbatim>\<open>'Y'\<close>, \<^verbatim>\<open>'Z'\<close> are 88, 89, 90, and \<^verbatim>\<open>M_PI\<close> is \<open>pi\<close>.
\<close>

record StrokeCache =
  true_location :: vec3
  cache_radius :: real
  cache_radius_squared :: real
  symmetry :: int

record Sculpt =
  symmetry_flags :: "32 word"
  radial_symm :: "int \<Rightarrow> int"

definition calc_overlap :: "'rv brush_extern \<Rightarrow> StrokeCache \<Rightarrow> 8 word \<Rightarrow> 8 word \<Rightarrow> real \<Rightarrow> real" where
  "calc_overlap X cache symm axis angle =
     (let mirror = flip_v3_v3 X (true_location cache) symm;
          mirror = (if axis \<noteq> 0 then axis_angle_to_mat3_single X axis angle mirror else mirror);
          distsq = len_squared_v3v3 mirror (true_location cache)
      in if cache_radius cache > 0 \<and> distsq \<le> 4 * cache_radius_squared cache
         then (2 * cache_radius cache - sqrt distsq) / (2 * cache_radius cache)
         else 0)"

definition calc_radial_symmetry_feather ::
  "'rv brush_extern \<Rightarrow> Sculpt \<Rightarrow> StrokeCache \<Rightarrow> 8 word \<Rightarrow> 8 word \<Rightarrow> real" where
  "calc_radial_symmetry_feather X sd cache symm axis =
     foldl (\<lambda>overlap i.
        (let angle = 2 * pi * real_of_int i / real_of_int (radial_symm sd (sint axis - 88))
         in overlap + calc_overlap X cache symm axis angle))
       0 [1..radial_symm sd (sint axis - 88) - 1]"

definition calc_symmetry_feather :: "'rv brush_extern \<Rightarrow> Sculpt \<Rightarrow> StrokeCache \<Rightarrow> real" where
  "calc_symmetry_feather X sd cache =
     (if symmetry_flags sd AND PAINT_SYMMETRY_FEATHER X = 0 then 1
      else
        (let symm = symmetry cache;
             overlap = foldl (\<lambda>overlap i.
                 if \<not> SCULPT_is_symmetry_iteration_valid (of_int i) (of_int symm) then overlap
                 else overlap + calc_overlap X cache (of_int i) 0 0
                      + calc_radial_symmetry_feather X sd cache (of_int i) 88
                      + calc_radial_symmetry_feather X sd cache (of_int i) 89
                      + calc_radial_symmetry_feather X sd cache (of_int i) 90)
               0 [0..symm]
         in if overlap \<noteq> 0 then 1 / overlap else 1))"

text \<open>
  The specification's words: the overlap score of a transformed brush centre \<open>p\<close> at
  distance \<open>|\<Delta>|\<close> from the true centre is \<open>(2r - |\<Delta>|) / (2r)\<close> when \<open>|\<Delta>| < 2r\<close> and 0
  otherwise; the instances are the mirror image of the true centre for every valid
  symmetry pass and its rotations for the radial passes about the three axes; the feather
  factor is 1 over the total overlap, or 1 if that is zero.
\<close>

definition overlap_score :: "real \<Rightarrow> vec3 \<Rightarrow> vec3 \<Rightarrow> real" where
  "overlap_score r center p =
     (let delta = sqrt (len_squared_v3v3 p center) in
      if delta < 2 * r then (2 * r - delta) / (2 * r) else 0)"

definition radial_instances :: "'rv brush_extern \<Rightarrow> Sculpt \<Rightarrow> vec3 \<Rightarrow> 8 word \<Rightarrow> vec3 list" where
  "radial_instances X sd p axis =
     map (\<lambda>k. axis_angle_to_mat3_single X axis
                (2 * pi * real_of_int k / real_of_int (radial_symm sd (sint axis - 88))) p)
       [1..radial_symm sd (sint axis - 88) - 1]"

definition symmetry_instances :: "'rv brush_extern \<Rightarrow> Sculpt \<Rightarrow> StrokeCache \<Rightarrow> vec3 list" where
  "symmetry_instances X sd cache =
     concat (map (\<lambda>i.
         (let p = flip_v3_v3 X (true_location cache) (of_int i) in
          p # radial_instances X sd p 88 @ radial_instances X sd p 89 @ radial_instances X sd p 90))
       (filter (\<lambda>i. SCULPT_is_symmetry_iteration_valid (of_int i) (of_int (symmetry cache)))
          [0..symmetry cache]))"

definition symmetry_feather_spec :: "'rv brush_extern \<Rightarrow> Sculpt \<Rightarrow> StrokeCache \<Rightarrow> real" where
  "symmetry_feather_spec X sd cache =
     (let total = sum_list (map (overlap_score (cache_radius cache) (true_location cache))
                     (symmetry_instances X sd cache))
      in if total = 0 then 1 else 1 / total)"

text \<open>
  A stroke to run: radius 1, centre \<open>(1/2, 0, 0)\<close>, mirror symmetry in X with the feather
  option set, no radial symmetry.
\<close>

definition feather_example_extern :: "unit brush_extern" where
  "feather_example_extern =
     brush_example_extern\<lparr>flip_v3_v3 := (\<lambda>co symm.
        case co of (x, y, z) \<Rightarrow>
          (if symm AND 1 \<noteq> 0 then - x else x,
           if symm AND 2 \<noteq> 0 then - y else y,
           if symm AND 4 \<noteq> 0 then - z else z))\<rparr>"

definition feather_example_sd :: Sculpt where
  "feather_example_sd = \<lparr>symmetry_flags = 9, radial_symm = (\<lambda>axis. 1)\<rparr>"

definition feather_example_cache :: StrokeCache where
  "feather_example_cache =
     \<lparr>true_location = (1 / 2, 0, 0), cache_radius = 1, cache_radius_squared = 1, symmetry = 1\<rparr>"

section \<open>Properties\<close>

subsection \<open>Symmetry passes\<close>

lemma symmetry_valid_enum:
  "\<forall>n \<in> set [0..<8]. \<forall>m \<in> set [0..<Suc n].
     SCULPT_is_symmetry_iteration_valid (of_nat m) (of_nat n) =
       ((of_nat m :: 8 word) = 0 \<or>
        ((of_nat m :: 8 word) AND of_nat n = of_nat m \<and>
         \<not> ((of_nat n :: 8 word) = 5 \<and> (of_nat m :: 8 word) = 3) \<and>
         \<not> ((of_nat n :: 8 word) = 6 \<and> ((of_nat m :: 8 word) = 3 \<or> (of_nat m :: 8 word) = 5))))"
  by code_simp

text \<open>
  Claim C1. For every \<open>symm\<close> in 0..7 and every \<open>i\<close> in 0..symm, the pass \<open>i\<close> is
  valid exactly when \<open>i = 0\<close>, or \<open>i\<close> is a bit-subset of \<open>symm\<close> and is not one of the
  redundant combined passes (\<open>i = 3\<close> for \<open>symm = 5\<close>; \<open>i = 3\<close> or \<open>i = 5\<close> for \<open>symm = 6\<close>).
\<close>

theorem symmetry_iteration_valid_exact:
  assumes "symm \<le> 7" and "i \<le> symm"
  shows "SCULPT_is_symmetry_iteration_valid i symm =
     (i = 0 \<or> (i AND symm = i \<and> \<not> (symm = 5 \<and> i = 3) \<and> \<not> (symm = 6 \<and> (i = 3 \<or> i = 5))))"
proof -
  from assms(1) have n: "unat symm \<in> set [0..<8]"
    by (simp add: word_le_nat_alt)
  from assms(2) have m: "unat i \<in> set [0..<Suc (unat symm)]"
    by (auto simp add: word_le_nat_alt)
  from symmetry_valid_enum n m
  have "SCULPT_is_symmetry_iteration_valid (of_nat (unat i)) (of_nat (unat symm)) =
       ((of_nat (unat i) :: 8 word) = 0 \<or>
        ((of_nat (unat i) :: 8 word) AND of_nat (unat symm) = of_nat (unat i) \<and>
         \<not> ((of_nat (unat symm) :: 8 word) = 5 \<and> (of_nat (unat i) :: 8 word) = 3) \<and>
         \<not> ((of_nat (unat symm) :: 8 word) = 6 \<and>
            ((of_nat (unat i) :: 8 word) = 3 \<or> (of_nat (unat i) :: 8 word) = 5))))"
    by blast
  then show ?thesis by simp
qed

theorem symmetry_iteration_valid_exact_witness:
  "(6::8 word) \<le> 7 \<and> (5::8 word) \<le> 6 \<and> \<not> SCULPT_is_symmetry_iteration_valid 5 6
   \<and> (4::8 word) \<le> 6 \<and> SCULPT_is_symmetry_iteration_valid 4 6"
  using symmetry_iteration_valid_exact [of 6 5] symmetry_iteration_valid_exact [of 6 4] by simp

subsection \<open>Flood fill\<close>

lemma bitmap_unset_count_enable:
  "i < length bitmap \<Longrightarrow> \<not> bitmap ! i \<Longrightarrow>
   Suc (bitmap_unset_count (bitmap[i := True])) = bitmap_unset_count bitmap"
  unfolding bitmap_unset_count_def
proof (induction bitmap arbitrary: i)
  case Nil
  then show ?case by simp
next
  case (Cons b bs)
  then show ?case by (cases i) auto
qed

lemma flood_inv_step:
  assumes inv: "flood_inv E v0 r"
    and idx: "0 \<le> vertex_to_index E to_v" "vertex_to_index E to_v < int (length (visited_vertices r))"
    and unv: "\<not> visited_vertices r ! nat (vertex_to_index E to_v)"
    and vis: "vertex_visible_get E (ss r) to_v"
  shows "flood_inv E v0
     (r\<lparr>visited_vertices := (visited_vertices r)[nat (vertex_to_index E to_v) := True], ss := s',
        calls := calls r @ [\<lparr>call_ss = ss r, call_from = from_v, call_to = to_v,
                               call_is_duplicate = d,
                               call_visited = (visited_vertices r)[nat (vertex_to_index E to_v) := True]\<rparr>]\<rparr>)"
    (is "flood_inv E v0 ?r1")
    and "flood_inv E v0
     (r\<lparr>visited_vertices := (visited_vertices r)[nat (vertex_to_index E to_v) := True], ss := s',
        calls := calls r @ [\<lparr>call_ss = ss r, call_from = from_v, call_to = to_v,
                               call_is_duplicate = d,
                               call_visited = (visited_vertices r)[nat (vertex_to_index E to_v) := True]\<rparr>],
        queue := q', pushed := pushed r @ [to_v]\<rparr>)"
    (is "flood_inv E v0 ?r2")
proof -
  let ?i = "nat (vertex_to_index E to_v)"
  from inv have len: "length (visited_vertices r) = length v0"
    by (simp add: flood_inv_def)
  have fresh: "vertex_to_index E to_v \<notin> (\<lambda>c. vertex_to_index E (call_to c)) ` set (calls r)"
  proof
    assume "vertex_to_index E to_v \<in> (\<lambda>c. vertex_to_index E (call_to c)) ` set (calls r)"
    then obtain c where c: "c \<in> set (calls r)" "vertex_to_index E (call_to c) = vertex_to_index E to_v"
      by auto
    from inv c(1) have "visited_vertices r ! nat (vertex_to_index E (call_to c))"
      unfolding flood_inv_def by blast
    with c(2) unv show False by simp
  qed
  from inv have v0: "\<forall>i < length v0. v0 ! i \<longrightarrow> visited_vertices r ! i"
    unfolding flood_inv_def by blast
  have v0i: "\<not> v0 ! ?i"
    using v0 unv idx len by (metis nat_less_iff)
  have mono: "\<forall>i < length v0. v0 ! i \<longrightarrow> (visited_vertices r)[?i := True] ! i"
  proof (intro allI impI)
    fix i assume i: "i < length v0" "v0 ! i"
    with v0 have "visited_vertices r ! i" by blast
    then show "(visited_vertices r)[?i := True] ! i"
      using i(1) len by (cases "?i = i") simp_all
  qed
  have old: "\<forall>c \<in> set (calls r). (visited_vertices r)[?i := True] ! nat (vertex_to_index E (call_to c))"
  proof
    fix c assume c: "c \<in> set (calls r)"
    with inv have a: "vertex_to_index E (call_to c) < int (length v0)"
      and a0: "0 \<le> vertex_to_index E (call_to c)"
      and b: "visited_vertices r ! nat (vertex_to_index E (call_to c))"
      unfolding flood_inv_def by blast+
    from a a0 len have "nat (vertex_to_index E (call_to c)) < length (visited_vertices r)"
      by linarith
    with b show "(visited_vertices r)[?i := True] ! nat (vertex_to_index E (call_to c))"
      by (cases "?i = nat (vertex_to_index E (call_to c))") simp_all
  qed
  have pfresh: "vertex_to_index E to_v \<notin> vertex_to_index E ` set (pushed r)"
    using fresh inv by (auto simp: flood_inv_def)
  show "flood_inv E v0 ?r1"
    using inv idx vis fresh v0i old len mono by (auto simp: flood_inv_def)
  show "flood_inv E v0 ?r2"
    using inv idx vis fresh v0i old len pfresh mono by (auto simp: flood_inv_def)
qed

lemma floodfill_visit_inv:
  assumes run: "floodfill_visit E func from_v ni r = Inr r'"
    and inv: "flood_inv E v0 r"
  shows "flood_inv E v0 r' \<and> flood_measure r' \<le> flood_measure r"
proof -
  obtain to_v d where ni: "ni = (to_v, d)" by (cases ni)
  let ?i = "vertex_to_index E to_v"
  show ?thesis
  proof (cases "0 \<le> ?i \<and> ?i < int (length (visited_vertices r))")
    case False
    with run ni show ?thesis
      by (simp add: floodfill_visit_def BLI_BITMAP_TEST_def)
  next
    case rng: True
    show ?thesis
    proof (cases "visited_vertices r ! nat ?i \<or> \<not> vertex_visible_get E (ss r) to_v")
      case True
      with run ni rng have "r' = r"
        by (auto simp: floodfill_visit_def BLI_BITMAP_TEST_def Let_def split: if_splits)
      with inv show ?thesis by simp
    next
      case False
      obtain expand s' where f: "func (ss r) from_v to_v d = (expand, s')"
        by (cases "func (ss r) from_v to_v d")
      from rng False have cnt:
        "Suc (bitmap_unset_count ((visited_vertices r)[nat ?i := True])) =
           bitmap_unset_count (visited_vertices r)"
        by (intro bitmap_unset_count_enable) auto
      show ?thesis
      proof (cases expand)
        case True
        with run ni rng False f have r': "r' =
          r\<lparr>visited_vertices := (visited_vertices r)[nat ?i := True], ss := s',
            calls := calls r @ [\<lparr>call_ss = ss r, call_from = from_v, call_to = to_v,
                               call_is_duplicate = d,
                               call_visited = (visited_vertices r)[nat ?i := True]\<rparr>],
            queue := queue r @ [to_v], pushed := pushed r @ [to_v]\<rparr>"
          by (auto simp: floodfill_visit_def BLI_BITMAP_TEST_def BLI_BITMAP_ENABLE_def Let_def)
        have "flood_inv E v0 r'"
          unfolding r' using inv rng False by (intro flood_inv_step(2)) auto
        moreover have "flood_measure r' \<le> flood_measure r"
          using cnt by (simp add: r' flood_measure_def)
        ultimately show ?thesis by simp
      next
        case no: False
        with run ni rng False f have r': "r' =
          r\<lparr>visited_vertices := (visited_vertices r)[nat ?i := True], ss := s',
            calls := calls r @ [\<lparr>call_ss = ss r, call_from = from_v, call_to = to_v,
                               call_is_duplicate = d,
                               call_visited = (visited_vertices r)[nat ?i := True]\<rparr>]\<rparr>"
          by (auto simp: floodfill_visit_def BLI_BITMAP_TEST_def BLI_BITMAP_ENABLE_def Let_def)
        have "flood_inv E v0 r'"
          unfolding r' using inv rng False by (intro flood_inv_step(1)) auto
        moreover have "flood_measure r' \<le> flood_measure r"
          using cnt by (simp add: r' flood_measure_def)
        ultimately show ?thesis by simp
      qed
    qed
  qed
qed

lemma floodfill_visit_no_fault:
  assumes "0 \<le> vertex_to_index E (fst ni)"
    and "vertex_to_index E (fst ni) < int (length (visited_vertices r))"
  shows "\<exists>r'. floodfill_visit E func from_v ni r = Inr r'"
  using assms
  by (auto simp: floodfill_visit_def BLI_BITMAP_TEST_def BLI_BITMAP_ENABLE_def Let_def
           split: prod.splits)

lemma floodfill_visit_neighbors_inv:
  "floodfill_visit_neighbors E func from_v nis r = Inr r' \<Longrightarrow> flood_inv E v0 r \<Longrightarrow>
   flood_inv E v0 r' \<and> flood_measure r' \<le> flood_measure r"
proof (induction nis arbitrary: r)
  case Nil
  then show ?case by simp
next
  case (Cons ni nis)
  from Cons.prems(1) obtain r1 where
    r1: "floodfill_visit E func from_v ni r = Inr r1"
    and rest: "floodfill_visit_neighbors E func from_v nis r1 = Inr r'"
    by (auto split: sum.splits)
  from floodfill_visit_inv [OF r1 Cons.prems(2)]
  have "flood_inv E v0 r1" and "flood_measure r1 \<le> flood_measure r" by simp_all
  with Cons.IH [OF rest] show ?case by force
qed

lemma floodfill_visit_neighbors_no_fault:
  "flood_inv E v0 r \<Longrightarrow>
   \<forall>ni \<in> set nis. 0 \<le> vertex_to_index E (fst ni) \<and> vertex_to_index E (fst ni) < int (length v0) \<Longrightarrow>
   \<exists>r'. floodfill_visit_neighbors E func from_v nis r = Inr r'"
proof (induction nis arbitrary: r)
  case Nil
  then show ?case by simp
next
  case (Cons ni nis)
  from Cons.prems have len: "length (visited_vertices r) = length v0"
    by (simp add: flood_inv_def)
  with Cons.prems(2) obtain r1 where r1: "floodfill_visit E func from_v ni r = Inr r1"
    using floodfill_visit_no_fault [of E ni r func from_v] by auto
  from floodfill_visit_inv [OF r1 Cons.prems(1)] have "flood_inv E v0 r1" by simp
  from Cons.IH [OF this] Cons.prems(2) r1 show ?case by simp
qed

lemma floodfill_execute_inv:
  assumes "flood_inv E v0 r"
  shows "\<exists>res. SCULPT_floodfill_execute E func r = Some res \<and>
           (\<forall>r'. res = Inr r' \<longrightarrow> queue r' = [] \<and> flood_inv E v0 r') \<and>
           (neighbors_in_range E (length v0) \<longrightarrow> (\<exists>r'. res = Inr r'))"
  using assms
proof (induction "flood_measure r" arbitrary: r rule: less_induct)
  case less
  show ?case
  proof (cases "queue r")
    case Nil
    with less.prems show ?thesis
      by (subst SCULPT_floodfill_execute.simps) simp
  next
    case (Cons from_v rest)
    let ?r0 = "r\<lparr>queue := rest\<rparr>"
    let ?nis = "neighbors_iter E (ss r) from_v"
    from less.prems have inv0: "flood_inv E v0 ?r0"
      by (simp add: flood_inv_def)
    have m0: "flood_measure ?r0 < flood_measure r"
      using Cons by (simp add: flood_measure_def)
    show ?thesis
    proof (cases "floodfill_visit_neighbors E func from_v ?nis ?r0")
      case (Inl e)
      have nf: "\<not> neighbors_in_range E (length v0)"
      proof
        assume "neighbors_in_range E (length v0)"
        then have "\<forall>ni \<in> set ?nis. 0 \<le> vertex_to_index E (fst ni) \<and>
                     vertex_to_index E (fst ni) < int (length v0)"
          unfolding neighbors_in_range_def by fastforce
        from floodfill_visit_neighbors_no_fault [OF inv0 this, of func from_v] Inl
        show False by simp
      qed
      from Cons Inl have "SCULPT_floodfill_execute E func r = Some (Inl e)"
        by (subst SCULPT_floodfill_execute.simps) simp
      with nf show ?thesis by simp
    next
      case (Inr r1)
      from floodfill_visit_neighbors_inv [OF Inr inv0]
      have inv1: "flood_inv E v0 r1" and "flood_measure r1 \<le> flood_measure ?r0" by simp_all
      with m0 have "flood_measure r1 < flood_measure r" by simp
      from less.hyps [OF this inv1]
      obtain res where res: "SCULPT_floodfill_execute E func r1 = Some res"
        "\<forall>r'. res = Inr r' \<longrightarrow> queue r' = [] \<and> flood_inv E v0 r'"
        "neighbors_in_range E (length v0) \<longrightarrow> (\<exists>r'. res = Inr r')"
        by blast
      from Cons Inr have "SCULPT_floodfill_execute E func r = SCULPT_floodfill_execute E func r1"
        by (subst SCULPT_floodfill_execute.simps) simp
      with res show ?thesis by simp
    qed
  qed
qed

lemma floodfill_start_inv: "flood_inv E (visited_vertices flood) (floodfill_start flood s)"
  by (simp add: flood_inv_def floodfill_start_def SculptFloodFill.extend_def SculptFloodFill.defs)

lemma flood_example_run:
  "SCULPT_floodfill_execute flood_example_env flood_example_cb flood_example_start =
     Some (Inr \<lparr>queue = [], visited_vertices = [True, True, True, False], ss = 3,
       calls =
         [\<lparr>call_ss = 0, call_from = 0, call_to = 1, call_is_duplicate = False,
            call_visited = [False, True, False, False]\<rparr>,
          \<lparr>call_ss = 1, call_from = 0, call_to = 2, call_is_duplicate = False,
            call_visited = [False, True, True, False]\<rparr>,
          \<lparr>call_ss = 2, call_from = 1, call_to = 0, call_is_duplicate = False,
            call_visited = [True, True, True, False]\<rparr>],
       pushed = [1, 2, 0]\<rparr>)"
  by (simp add: SCULPT_floodfill_execute.simps flood_example_env_def flood_example_cb_def
      flood_example_start_def floodfill_start_def SCULPT_floodfill_add_initial_def
      SCULPT_floodfill_init_def SculptFloodFill.extend_def floodfill_visit_def
      BLI_BITMAP_TEST_def BLI_BITMAP_ENABLE_def numeral_eq_Suc)

lemma flood_example_in_range: "neighbors_in_range flood_example_env 4"
  by (simp add: neighbors_in_range_def flood_example_env_def)

text \<open>
  Claim C2. Whatever the adjacency, the seeds and the callback, one run of
  \<^verbatim>\<open>SCULPT_floodfill_execute\<close> returns, and unless it left the bitmap it has invoked
  the callback at most once for each vertex (and each vertex index) as \<^verbatim>\<open>to_v\<close>; at
  each invocation the vertex was already marked in the visited bitmap and was visible,
  and only such vertices were pushed to the queue.
\<close>

theorem floodfill_visits_at_most_once:
  "\<exists>res. SCULPT_floodfill_execute E func (floodfill_start flood s) = Some res \<and>
     (\<forall>r'. res = Inr r' \<longrightarrow>
        distinct (map call_to (calls r')) \<and>
        distinct (map (\<lambda>c. vertex_to_index E (call_to c)) (calls r')) \<and>
        (\<forall>c \<in> set (calls r').
           call_visited c ! nat (vertex_to_index E (call_to c)) \<and>
           vertex_visible_get E (call_ss c) (call_to c)) \<and>
        set (pushed r') \<subseteq> call_to ` set (calls r'))"
proof -
  have "flood_inv E (visited_vertices flood) (floodfill_start flood s)"
    by (rule floodfill_start_inv)
  from floodfill_execute_inv [OF this, where func = func]
  obtain res where res: "SCULPT_floodfill_execute E func (floodfill_start flood s) = Some res"
    and inv: "\<forall>r'. res = Inr r' \<longrightarrow> flood_inv E (visited_vertices flood) r'"
    by blast
  have "distinct (map call_to (calls r'))"
    if "distinct (map (\<lambda>c. vertex_to_index E (call_to c)) (calls r'))" for r' :: "'a flood_run"
  proof -
    have "map (\<lambda>c. vertex_to_index E (call_to c)) (calls r') =
          map (vertex_to_index E) (map call_to (calls r'))"
      by simp
    with that show ?thesis by (metis distinct_map)
  qed
  with res inv show ?thesis
    unfolding flood_inv_def by blast
qed

theorem floodfill_visits_at_most_once_witness:
  "\<exists>r'. SCULPT_floodfill_execute flood_example_env flood_example_cb flood_example_start =
           Some (Inr r') \<and>
        map call_to (calls r') = [1, 2, 0] \<and>
        distinct (map call_to (calls r')) \<and>
        (\<forall>c \<in> set (calls r').
           call_visited c ! nat (vertex_to_index flood_example_env (call_to c)) \<and>
           vertex_visible_get flood_example_env (call_ss c) (call_to c))"
  using floodfill_visits_at_most_once [of flood_example_env flood_example_cb
      "SCULPT_floodfill_add_initial 0 (SCULPT_floodfill_init 4)" 0]
  unfolding flood_example_run flood_example_start_def [symmetric]
  by auto

lemma bitmap_unset_count_card:
  "bitmap_unset_count bitmap = card {i. i < length bitmap \<and> \<not> bitmap ! i}"
  unfolding bitmap_unset_count_def by (rule length_filter_conv_card)

lemma flood_inv_pushed_bound:
  assumes inv: "flood_inv E v0 r"
  shows "length (pushed r) \<le> bitmap_unset_count v0"
    and "\<forall>v \<in> set (pushed r). 0 \<le> vertex_to_index E v \<and> vertex_to_index E v < int (length v0) \<and>
           \<not> v0 ! nat (vertex_to_index E v) \<and> visited_vertices r ! nat (vertex_to_index E v)"
proof -
  show b: "\<forall>v \<in> set (pushed r). 0 \<le> vertex_to_index E v \<and> vertex_to_index E v < int (length v0) \<and>
           \<not> v0 ! nat (vertex_to_index E v) \<and> visited_vertices r ! nat (vertex_to_index E v)"
    using inv unfolding flood_inv_def by blast
  let ?f = "\<lambda>v. nat (vertex_to_index E v)"
  from inv have d: "distinct (map (vertex_to_index E) (pushed r))"
    unfolding flood_inv_def by blast
  have "inj_on ?f (set (pushed r))"
  proof (rule inj_onI)
    fix x y assume x: "x \<in> set (pushed r)" and y: "y \<in> set (pushed r)" and e: "?f x = ?f y"
    with b have "vertex_to_index E x = vertex_to_index E y" by (metis nat_eq_iff)
    with d x y show "x = y" by (meson distinct_map inj_on_eq_iff)
  qed
  moreover from d have "distinct (pushed r)" by (simp add: distinct_map)
  ultimately have "length (pushed r) = card (?f ` set (pushed r))"
    by (simp add: card_image distinct_card)
  also have "\<dots> \<le> card {i. i < length v0 \<and> \<not> v0 ! i}"
  proof (rule card_mono)
    show "finite {i. i < length v0 \<and> \<not> v0 ! i}" by simp
    show "?f ` set (pushed r) \<subseteq> {i. i < length v0 \<and> \<not> v0 ! i}"
      using b by auto
  qed
  finally show "length (pushed r) \<le> bitmap_unset_count v0"
    by (simp add: bitmap_unset_count_card)
qed

text \<open>
  Claim C10. On a finite graph (every neighbour has its bit in the bitmap), for every
  list of seeds and every callback, \<^verbatim>\<open>SCULPT_floodfill_execute\<close> terminates with an
  empty queue: the vertices pushed after the seeds are pairwise distinct, each was
  unvisited before the run and is visited after it, so there are at most as many pushes
  as bits unset at the start.
\<close>

theorem floodfill_execute_terminates:
  assumes "neighbors_in_range E (length (visited_vertices flood))"
  shows "\<exists>r'. SCULPT_floodfill_execute E func (floodfill_start flood s) = Some (Inr r') \<and>
     queue r' = [] \<and>
     distinct (map (vertex_to_index E) (pushed r')) \<and>
     (\<forall>v \<in> set (pushed r').
        \<not> visited_vertices flood ! nat (vertex_to_index E v) \<and>
        visited_vertices r' ! nat (vertex_to_index E v)) \<and>
     length (pushed r') \<le> bitmap_unset_count (visited_vertices flood)"
proof -
  have "flood_inv E (visited_vertices flood) (floodfill_start flood s)"
    by (rule floodfill_start_inv)
  from floodfill_execute_inv [OF this, where func = func] assms
  obtain r' where run: "SCULPT_floodfill_execute E func (floodfill_start flood s) = Some (Inr r')"
    and q: "queue r' = []" and inv: "flood_inv E (visited_vertices flood) r'"
    by blast
  from inv have "distinct (map (vertex_to_index E) (pushed r'))"
    unfolding flood_inv_def by blast
  with run q flood_inv_pushed_bound [OF inv] show ?thesis by blast
qed

theorem floodfill_execute_terminates_witness:
  "neighbors_in_range flood_example_env 4 \<and>
   (\<exists>r'. SCULPT_floodfill_execute flood_example_env flood_example_cb flood_example_start =
           Some (Inr r') \<and> queue r' = [] \<and> pushed r' = [1, 2, 0])"
  using floodfill_execute_terminates [of flood_example_env
      "SCULPT_floodfill_add_initial 0 (SCULPT_floodfill_init 4)" flood_example_cb 0]
    flood_example_in_range
  unfolding flood_example_run flood_example_start_def [symmetric]
  by (simp add: SCULPT_floodfill_add_initial_def SCULPT_floodfill_init_def)

subsection \<open>Brush geometry tests\<close>

lemma len_v2v2_corner:
  "len_v2v2 (c, c, c) (x, y, z) = sqrt ((x - c)\<^sup>2 + (y - c)\<^sup>2)"
proof -
  have "(c - x) * (c - x) + (c - y) * (c - y) = (x - c)\<^sup>2 + (y - c)\<^sup>2"
    by (simp add: power2_eq_square algebra_simps)
  then show ?thesis by (simp add: len_v2v2_def)
qed

lemma cube_test_accepted:
  assumes "SCULPT_brush_test_cube X test co local roundness test_z = Inr (True, test1)"
  shows "\<bar>fst (local co)\<bar> \<le> 1 \<and> \<bar>fst (snd (local co))\<bar> \<le> 1 \<and>
         (roundness \<noteq> 0 \<or> (\<bar>fst (local co)\<bar> \<le> 1 - roundness \<and> \<bar>fst (snd (local co))\<bar> \<le> 1 - roundness)) \<and>
         dist_test test1 = cube_distance_rule roundness \<bar>fst (local co)\<bar> \<bar>fst (snd (local co))\<bar>"
  using assms
  by (auto simp: SCULPT_brush_test_cube_def Let_def float_div_def min_ff_def max_ff_def
        cube_distance_rule_def cube_corner_distance_def cube_side_distance_def len_v2v2_corner
      split: prod.splits if_splits)

lemma cube_rule_norm:
  assumes "0 < r"
  shows "r * cube_distance_rule r x y = sqrt ((max (x - (1 - r)) 0)\<^sup>2 + (max (y - (1 - r)) 0)\<^sup>2)"
  using assms
  by (auto simp: cube_distance_rule_def cube_corner_distance_def cube_side_distance_def max_def)

lemma sqrt_sum_squares_lipschitz:
  "\<bar>sqrt (a\<^sup>2 + b\<^sup>2) - sqrt (c\<^sup>2 + d\<^sup>2)\<bar> \<le> \<bar>a - c\<bar> + \<bar>b - d\<bar>"
proof -
  have "\<bar>cmod (Complex a b) - cmod (Complex c d)\<bar> \<le> cmod (Complex a b - Complex c d)"
    by (rule norm_triangle_ineq3)
  also have "\<dots> \<le> \<bar>a - c\<bar> + \<bar>b - d\<bar>"
    using cmod_le [of "Complex a b - Complex c d"] by simp
  finally show ?thesis by (simp add: cmod_def)
qed

lemma cube_rule_lipschitz:
  assumes r: "0 \<le> r"
    and x: "r = 0 \<longrightarrow> x \<le> 1 \<and> y \<le> 1 \<and> x' \<le> 1 \<and> y' \<le> 1"
  shows "r * \<bar>cube_distance_rule r x y - cube_distance_rule r x' y'\<bar> \<le> \<bar>x - x'\<bar> + \<bar>y - y'\<bar>"
proof (cases "r = 0")
  case True
  then show ?thesis by simp
next
  case False
  with r have pos: "0 < r" by simp
  let ?c = "1 - r"
  have "r * \<bar>cube_distance_rule r x y - cube_distance_rule r x' y'\<bar> =
        \<bar>r * cube_distance_rule r x y - r * cube_distance_rule r x' y'\<bar>"
    using pos by (simp add: abs_mult flip: right_diff_distrib)
  also have "\<dots> = \<bar>sqrt ((max (x - ?c) 0)\<^sup>2 + (max (y - ?c) 0)\<^sup>2) -
                    sqrt ((max (x' - ?c) 0)\<^sup>2 + (max (y' - ?c) 0)\<^sup>2)\<bar>"
    by (simp only: cube_rule_norm [OF pos])
  also have "\<dots> \<le> \<bar>max (x - ?c) 0 - max (x' - ?c) 0\<bar> + \<bar>max (y - ?c) 0 - max (y' - ?c) 0\<bar>"
    by (rule sqrt_sum_squares_lipschitz)
  also have "\<dots> \<le> \<bar>x - x'\<bar> + \<bar>y - y'\<bar>"
    by (simp add: max_def abs_if)
  finally show ?thesis .
qed

text \<open>
  Claim C3. For a tip roundness in \<open>[0, 1]\<close> and an accepted point,
  \<^verbatim>\<open>SCULPT_brush_test_cube\<close> stores the distance of the three-region rule. The rule is
  continuous across the regions: on the corner/side boundary the corner and side formulas
  agree, on the side/core boundary the side formula is 0 (for roundness 0 the accepted
  points are all in the core, at distance 0), and between two accepted points the
  distance changes by at most the change of the coordinates over the roundness.
\<close>

theorem cube_test_piecewise_continuous:
  assumes r: "0 \<le> roundness" "roundness \<le> 1"
    and p: "SCULPT_brush_test_cube X test co local roundness test_z = Inr (True, test1)"
    and q: "SCULPT_brush_test_cube X test co' local roundness test_z = Inr (True, test2)"
  shows "dist_test test1 = cube_distance_rule roundness \<bar>fst (local co)\<bar> \<bar>fst (snd (local co))\<bar> \<and>
     (\<forall>x y. 0 < roundness \<and> x > 1 - roundness \<and> y = 1 - roundness \<longrightarrow>
        cube_corner_distance roundness x y = cube_side_distance roundness x \<and>
        cube_corner_distance roundness y x = cube_side_distance roundness x) \<and>
     (\<forall>x. 0 < roundness \<and> x = 1 - roundness \<longrightarrow> cube_side_distance roundness x = 0) \<and>
     (roundness = 0 \<longrightarrow> dist_test test1 = 0) \<and>
     roundness * \<bar>dist_test test1 - dist_test test2\<bar> \<le>
       \<bar>\<bar>fst (local co)\<bar> - \<bar>fst (local co')\<bar>\<bar> + \<bar>\<bar>fst (snd (local co))\<bar> - \<bar>fst (snd (local co'))\<bar>\<bar>"
proof -
  note a = cube_test_accepted [OF p] and b = cube_test_accepted [OF q]
  have 1: "dist_test test1 = cube_distance_rule roundness \<bar>fst (local co)\<bar> \<bar>fst (snd (local co))\<bar>"
    using a by simp
  have 2: "\<forall>x y. 0 < roundness \<and> x > 1 - roundness \<and> y = 1 - roundness \<longrightarrow>
        cube_corner_distance roundness x y = cube_side_distance roundness x \<and>
        cube_corner_distance roundness y x = cube_side_distance roundness x"
    by (simp add: cube_corner_distance_def cube_side_distance_def)
  have 3: "\<forall>x. 0 < roundness \<and> x = 1 - roundness \<longrightarrow> cube_side_distance roundness x = 0"
    by (simp add: cube_side_distance_def)
  have 4: "roundness = 0 \<longrightarrow> dist_test test1 = 0"
    using a by (auto simp: cube_distance_rule_def)
  have 5: "roundness * \<bar>dist_test test1 - dist_test test2\<bar> \<le>
       \<bar>\<bar>fst (local co)\<bar> - \<bar>fst (local co')\<bar>\<bar> + \<bar>\<bar>fst (snd (local co))\<bar> - \<bar>fst (snd (local co'))\<bar>\<bar>"
    using cube_rule_lipschitz [OF r(1), of "\<bar>fst (local co)\<bar>" "\<bar>fst (snd (local co))\<bar>"
        "\<bar>fst (local co')\<bar>" "\<bar>fst (snd (local co'))\<bar>"] a b
    by simp
  from 1 2 3 4 5 show ?thesis by blast
qed

lemma sqrt_example: "sqrt ((3 / 10)\<^sup>2 + (4 / 10)\<^sup>2) = 1 / 2"
proof -
  have "(3 / 10 :: real)\<^sup>2 + (4 / 10)\<^sup>2 = (1 / 2)\<^sup>2"
    by (simp add: power2_eq_square)
  moreover have "sqrt ((1 / 2 :: real)\<^sup>2) = \<bar>1 / 2\<bar>"
    by (rule real_sqrt_abs)
  ultimately show ?thesis by simp
qed

theorem cube_test_piecewise_continuous_witness:
  "(0::real) \<le> 1 / 2 \<and> (1 / 2 :: real) \<le> 1 \<and>
   SCULPT_brush_test_cube brush_example_extern (brush_example_test 1) (4 / 5, 9 / 10, 0)
      (\<lambda>v. v) (1 / 2) True = Inr (True, (brush_example_test 1)\<lparr>dist_test := 1\<rparr>) \<and>
   SCULPT_brush_test_cube brush_example_extern (brush_example_test 1) (4 / 5, 1 / 2, 0)
      (\<lambda>v. v) (1 / 2) True = Inr (True, (brush_example_test 1)\<lparr>dist_test := 3 / 5\<rparr>) \<and>
   cube_distance_rule (1 / 2) (4 / 5) (9 / 10) = 1 \<and>
   cube_corner_distance (1 / 2) (4 / 5) (1 / 2) = cube_side_distance (1 / 2) (4 / 5)"
proof -
  have c: "sqrt ((4 / 5 - (1 - 1 / 2))\<^sup>2 + (9 / 10 - (1 - 1 / 2))\<^sup>2) = 1 / 2"
    using sqrt_example by simp
  have p: "SCULPT_brush_test_cube brush_example_extern (brush_example_test 1) (4 / 5, 9 / 10, 0)
      (\<lambda>v. v) (1 / 2) True = Inr (True, (brush_example_test 1)\<lparr>dist_test := 1\<rparr>)"
    using c by (simp add: SCULPT_brush_test_cube_def sculpt_brush_test_clipping_def
        brush_example_test_def float_div_def min_ff_def max_ff_def len_v2v2_corner)
  have q: "SCULPT_brush_test_cube brush_example_extern (brush_example_test 1) (4 / 5, 1 / 2, 0)
      (\<lambda>v. v) (1 / 2) True = Inr (True, (brush_example_test 1)\<lparr>dist_test := 3 / 5\<rparr>)"
    by (simp add: SCULPT_brush_test_cube_def sculpt_brush_test_clipping_def
        brush_example_test_def float_div_def min_ff_def max_ff_def)
  have r: "(0::real) \<le> 1 / 2" "(1 / 2 :: real) \<le> 1" by simp_all
  from cube_test_piecewise_continuous [OF r p q] p q show ?thesis by simp
qed


lemma len_squared_v3v3_nonneg: "0 \<le> len_squared_v3v3 a b"
  by (cases a, cases b) (simp add: len_squared_v3v3_def)






subsection \<open>Face sets and fake neighbours\<close>

lemma sint_INT_MIN: "sint INT_MIN = - (2 ^ 31)"
  by (simp add: INT_MIN_def)

lemma sint_eq_INT_MIN: "sint (v :: 32 word) = - (2 ^ 31) \<longleftrightarrow> v = INT_MIN"
  using sint_INT_MIN by (metis signed_word_eqI)

lemma sint_uminus: "(v :: 32 word) \<noteq> INT_MIN \<Longrightarrow> sint (- v) = - sint v"
proof -
  assume "v \<noteq> INT_MIN"
  then have "sint v \<noteq> - (2 ^ 31)" using sint_eq_INT_MIN [of v] by blast
  moreover have "- (2 ^ 31) \<le> sint v" "sint v < 2 ^ 31"
    using sint_ge [of v] sint_lt [of v] by simp_all
  ultimately have "- (2 ^ 31) \<le> - sint v" "- sint v < 2 ^ 31" by linarith+
  then have "signed_take_bit 31 (- sint v) = - sint v"
    by (simp add: signed_take_bit_int_eq_self)
  then show ?thesis by (simp add: sint_word_ariths)
qed

lemma c_abs_sint: "c_abs v = Inr a \<Longrightarrow> sint a = \<bar>sint v\<bar>"
  by (auto simp: c_abs_def word_sless_alt sint_uminus split: if_splits)

lemma c_abs_fault: "(\<exists>a. c_abs v = Inr a) \<longleftrightarrow> v \<noteq> INT_MIN"
  by (simp add: c_abs_def)



lemma face_set_visibility_value_sint:
  assumes "face_set_visibility_value visible fset = Inr v"
  shows "sint v = face_set_all_set_spec visible fset"
    and "if visible then 1 \<le> sint v else sint v \<le> - 1"
proof -
  let ?f = "if fset = SCULPT_FACE_SET_NONE then 1 else fset"
  from assms obtain a where a: "c_abs ?f = Inr a" and v: "v = (if visible then a else - a)"
    by (auto simp: face_set_visibility_value_def Let_def split: sum.splits)
  from c_abs_sint [OF a] have sa: "sint a = \<bar>sint ?f\<bar>" .
  have nz: "sint ?f \<noteq> 0"
    by (auto simp: SCULPT_FACE_SET_NONE_def signed_eq_0_iff)
  with sa have pos: "1 \<le> sint a" by linarith
  then have "a \<noteq> INT_MIN" using sint_INT_MIN by auto
  then have sm: "sint (- a) = - sint a" by (rule sint_uminus)
  show "sint v = face_set_all_set_spec visible fset"
    using sa sm v by (auto simp: face_set_all_set_spec_def SCULPT_FACE_SET_NONE_def)
  show "if visible then 1 \<le> sint v else sint v \<le> - 1"
    using pos sm v by auto
qed

lemma face_set_visibility_value_ok:
  "(\<exists>v. face_set_visibility_value visible fset = Inr v) \<longleftrightarrow> fset \<noteq> INT_MIN"
  by (auto simp: face_set_visibility_value_def Let_def c_abs_def SCULPT_FACE_SET_NONE_def INT_MIN_def)


lemma face_sets_visibility_loop_result:
  "distinct idxs \<Longrightarrow> face_sets_visibility_loop visible idxs fsets = Inr fsets' \<Longrightarrow>
   (\<forall>i \<in> set idxs. face_set_visibility_value visible (fsets (int i)) = Inr (fsets' (int i))) \<and>
   (\<forall>j. j \<notin> int ` set idxs \<longrightarrow> fsets' j = fsets j)"
proof (induction idxs arbitrary: fsets)
  case Nil
  then show ?case by simp
next
  case (Cons i rest)
  from Cons.prems(2) obtain v where v: "face_set_visibility_value visible (fsets (int i)) = Inr v"
    and r: "face_sets_visibility_loop visible rest (fsets(int i := v)) = Inr fsets'"
    by (auto split: sum.splits)
  from Cons.prems(1) have d: "distinct rest" and ni: "i \<notin> set rest" by simp_all
  from Cons.IH [OF d r]
  have a: "\<forall>k \<in> set rest. face_set_visibility_value visible ((fsets(int i := v)) (int k)) = Inr (fsets' (int k))"
    and b: "\<forall>j. j \<notin> int ` set rest \<longrightarrow> fsets' j = (fsets(int i := v)) j"
    by blast+
  from ni have "int i \<notin> int ` set rest" by auto
  with b have "fsets' (int i) = v" by simp
  moreover have "\<forall>k \<in> set rest. face_set_visibility_value visible (fsets (int k)) = Inr (fsets' (int k))"
  proof
    fix k assume k: "k \<in> set rest"
    with ni have "(fsets(int i := v)) (int k) = fsets (int k)" by auto
    with a k show "face_set_visibility_value visible (fsets (int k)) = Inr (fsets' (int k))"
      by metis
  qed
  moreover from b have "\<forall>j. j \<notin> int ` set (i # rest) \<longrightarrow> fsets' j = fsets j"
    by auto
  ultimately show ?case using v by simp
qed

lemma face_sets_visibility_loop_ok:
  "distinct idxs \<Longrightarrow>
   (\<exists>fsets'. face_sets_visibility_loop visible idxs fsets = Inr fsets') \<longleftrightarrow>
   (\<forall>i \<in> set idxs. fsets (int i) \<noteq> INT_MIN)"
proof (induction idxs arbitrary: fsets)
  case Nil
  then show ?case by simp
next
  case (Cons i rest)
  from Cons.prems have d: "distinct rest" and ni: "i \<notin> set rest" by simp_all
  show ?case
  proof (cases "face_set_visibility_value visible (fsets (int i))")
    case (Inl e)
    with face_set_visibility_value_ok [of visible "fsets (int i)"] show ?thesis by simp
  next
    case (Inr v)
    with face_set_visibility_value_ok [of visible "fsets (int i)"]
    have ok: "fsets (int i) \<noteq> INT_MIN" by auto
    have "(\<exists>fsets'. face_sets_visibility_loop visible (i # rest) fsets = Inr fsets') \<longleftrightarrow>
          (\<exists>fsets'. face_sets_visibility_loop visible rest (fsets(int i := v)) = Inr fsets')"
      using Inr by simp
    also have "\<dots> \<longleftrightarrow> (\<forall>k \<in> set rest. (fsets(int i := v)) (int k) \<noteq> INT_MIN)"
      by (rule Cons.IH [OF d])
    also have "\<dots> \<longleftrightarrow> (\<forall>k \<in> set rest. fsets (int k) \<noteq> INT_MIN)"
      using ni by auto
    also have "\<dots> \<longleftrightarrow> (\<forall>k \<in> set (i # rest). fsets (int k) \<noteq> INT_MIN)"
      using ok by simp
    finally show ?thesis .
  qed
qed

lemma bm_faces_visibility_loop_result:
  "bm_faces_visibility_loop visible offset faces = Inr faces' \<Longrightarrow>
   list_all2 (\<lambda>f f'. face_set_visibility_value visible (f offset) = Inr (f' offset)) faces faces'"
proof (induction faces arbitrary: faces')
  case Nil
  then show ?case by simp
next
  case (Cons f rest)
  from Cons.prems obtain v rest' where
    "face_set_visibility_value visible (f offset) = Inr v"
    "bm_faces_visibility_loop visible offset rest = Inr rest'"
    "faces' = f(offset := v) # rest'"
    by (auto split: sum.splits)
  with Cons.IH [of rest'] show ?case by simp
qed

lemma bm_faces_visibility_loop_ok:
  "(\<exists>faces'. bm_faces_visibility_loop visible offset faces = Inr faces') \<longleftrightarrow>
   (\<forall>f \<in> set faces. f offset \<noteq> INT_MIN)"
proof (induction faces)
  case Nil
  then show ?case by simp
next
  case (Cons f rest)
  show ?case
  proof (cases "face_set_visibility_value visible (f offset)")
    case (Inl e)
    with face_set_visibility_value_ok [of visible "f offset"] show ?thesis by simp
  next
    case (Inr v)
    with face_set_visibility_value_ok [of visible "f offset"] have "f offset \<noteq> INT_MIN" by auto
    with Cons.IH Inr show ?thesis by (auto split: sum.splits)
  qed
qed

lemma face_sets_all_set_values:
  assumes "SCULPT_face_sets_visibility_all_set s visible = Inr s'"
  shows "list_all2 (\<lambda>v v'. face_set_visibility_value visible v = Inr v')
           (session_face_set_values s) (session_face_set_values s')"
proof (cases "pbvh_type s = PBVH_BMESH")
  case False
  with assms obtain fsets where l: "face_sets_visibility_loop visible [0..<nat (totfaces s)] (face_sets s) = Inr fsets"
    and s': "s' = s\<lparr>face_sets := fsets\<rparr>"
    by (cases "pbvh_type s") (auto simp: SCULPT_face_sets_visibility_all_set_def split: sum.splits)
  from face_sets_visibility_loop_result [OF _ l]
  have "\<forall>i \<in> set [0..<nat (totfaces s)].
          face_set_visibility_value visible (face_sets s (int i)) = Inr (fsets (int i))"
    by simp
  then have "list_all2 (\<lambda>v v'. face_set_visibility_value visible v = Inr v')
      (map (\<lambda>i. face_sets s (int i)) [0..<nat (totfaces s)])
      (map (\<lambda>i. fsets (int i)) [0..<nat (totfaces s)])"
    by (simp add: list_all2_map1 list_all2_map2 list_all2_same)
  with False s' show ?thesis
    by (cases "pbvh_type s") (simp_all add: session_face_set_values_def)
next
  case True
  show ?thesis
  proof (cases "bm s")
    case None
    with True assms show ?thesis
      by (auto simp: SCULPT_face_sets_visibility_all_set_def session_face_set_values_def)
  next
    case (Some b)
    let ?off = "if cd_faceset_offset s < 0 then pdata_faceset_offset b else cd_faceset_offset s"
    show ?thesis
    proof (cases "?off < 0")
      case neg: True
      with True Some assms show ?thesis
        by (auto simp: SCULPT_face_sets_visibility_all_set_def session_face_set_values_def Let_def
            split: if_splits)
    next
      case nonneg: False
      with True Some assms obtain faces where
        l: "bm_faces_visibility_loop visible ?off (bm_faces b) = Inr faces"
        and s': "s' = s\<lparr>cd_faceset_offset := ?off, bm := Some (b\<lparr>bm_faces := faces\<rparr>)\<rparr>"
        by (auto simp: SCULPT_face_sets_visibility_all_set_def Let_def split: sum.splits if_splits)
      from bm_faces_visibility_loop_result [OF l]
      have "list_all2 (\<lambda>v v'. face_set_visibility_value visible v = Inr v')
          (map (\<lambda>f. f ?off) (bm_faces b)) (map (\<lambda>f. f ?off) faces)"
        by (simp add: list_all2_map1 list_all2_map2)
      with True Some nonneg s' show ?thesis
        by (auto simp: session_face_set_values_def Let_def)
    qed
  qed
qed

lemma face_sets_all_set_ok:
  "(\<exists>s'. SCULPT_face_sets_visibility_all_set s visible = Inr s') \<longleftrightarrow>
   INT_MIN \<notin> set (session_face_set_values s)"
proof (cases "pbvh_type s = PBVH_BMESH")
  case False
  have "(\<exists>s'. SCULPT_face_sets_visibility_all_set s visible = Inr s') \<longleftrightarrow>
        (\<exists>fsets. face_sets_visibility_loop visible [0..<nat (totfaces s)] (face_sets s) = Inr fsets)"
    using False
    by (cases "pbvh_type s") (auto simp: SCULPT_face_sets_visibility_all_set_def split: sum.splits)
  also have "\<dots> \<longleftrightarrow> (\<forall>i \<in> set [0..<nat (totfaces s)]. face_sets s (int i) \<noteq> INT_MIN)"
    by (rule face_sets_visibility_loop_ok) simp
  also have "\<dots> \<longleftrightarrow> INT_MIN \<notin> set (session_face_set_values s)"
    using False by (cases "pbvh_type s") (auto simp: session_face_set_values_def image_iff)
  finally show ?thesis .
next
  case True
  show ?thesis
  proof (cases "bm s")
    case None
    with True show ?thesis
      by (auto simp: SCULPT_face_sets_visibility_all_set_def session_face_set_values_def)
  next
    case (Some b)
    let ?off = "if cd_faceset_offset s < 0 then pdata_faceset_offset b else cd_faceset_offset s"
    show ?thesis
    proof (cases "?off < 0")
      case neg: True
      with True Some show ?thesis
        by (auto simp: SCULPT_face_sets_visibility_all_set_def session_face_set_values_def Let_def
            split: if_splits)
    next
      case nonneg: False
      have "(\<exists>s'. SCULPT_face_sets_visibility_all_set s visible = Inr s') \<longleftrightarrow>
          (\<exists>faces. bm_faces_visibility_loop visible ?off (bm_faces b) = Inr faces)"
        using True Some nonneg
        by (auto simp: SCULPT_face_sets_visibility_all_set_def Let_def split: sum.splits if_splits)
      also have "\<dots> \<longleftrightarrow> (\<forall>f \<in> set (bm_faces b). f ?off \<noteq> INT_MIN)"
        by (rule bm_faces_visibility_loop_ok)
      also have "\<dots> \<longleftrightarrow> INT_MIN \<notin> set (session_face_set_values s)"
        using True Some nonneg by (auto simp: session_face_set_values_def Let_def image_iff)
      finally show ?thesis .
    qed
  qed
qed

text \<open>
  Claim C7. For every backend and both values of \<open>visible\<close>, after
  \<^verbatim>\<open>SCULPT_face_sets_visibility_all_set\<close> every face has the face-set value of the
  specification (ID 0 remapped to ID 1, then the sign set), hence a value \<open>\<ge> 1\<close> when
  visible and \<open>\<le> -1\<close> when not. The call returns unless a face-set value is
  \<^verbatim>\<open>INT_MIN\<close>, where \<^verbatim>\<open>abs\<close> is undefined.
\<close>

theorem face_sets_visibility_all_set_signs:
  "(\<forall>s'. SCULPT_face_sets_visibility_all_set s visible = Inr s' \<longrightarrow>
      map sint (session_face_set_values s') =
        map (face_set_all_set_spec visible) (session_face_set_values s) \<and>
      (\<forall>v \<in> set (session_face_set_values s'). if visible then 1 \<le> sint v else sint v \<le> - 1)) \<and>
   ((\<exists>s'. SCULPT_face_sets_visibility_all_set s visible = Inr s') \<longleftrightarrow>
      INT_MIN \<notin> set (session_face_set_values s))"
proof -
  have "map sint (session_face_set_values s') =
        map (face_set_all_set_spec visible) (session_face_set_values s) \<and>
      (\<forall>v \<in> set (session_face_set_values s'). if visible then 1 \<le> sint v else sint v \<le> - 1)"
    if run: "SCULPT_face_sets_visibility_all_set s visible = Inr s'" for s'
  proof -
    from face_sets_all_set_values [OF run]
    have rel: "list_all2 (\<lambda>v v'. face_set_visibility_value visible v = Inr v')
           (session_face_set_values s) (session_face_set_values s')" .
    then have "list_all2 (\<lambda>v v'. sint v' = face_set_all_set_spec visible v)
           (session_face_set_values s) (session_face_set_values s')"
      by (rule list_all2_mono) (simp add: face_set_visibility_value_sint(1))
    then have 1: "map sint (session_face_set_values s') =
        map (face_set_all_set_spec visible) (session_face_set_values s)"
      by (induction rule: list_all2_induct) simp_all
    from rel have "list_all2 (\<lambda>v v'. if visible then 1 \<le> sint v' else sint v' \<le> - 1)
           (session_face_set_values s) (session_face_set_values s')"
      by (rule list_all2_mono) (rule face_set_visibility_value_sint(2))
    then have 2: "\<forall>v \<in> set (session_face_set_values s'). if visible then 1 \<le> sint v else sint v \<le> - 1"
      by (induction rule: list_all2_induct) simp_all
    from 1 2 show ?thesis ..
  qed
  with face_sets_all_set_ok [of s visible] show ?thesis by blast
qed


text \<open>
  Claim C5 fails on the code: for two faces of the same face set 1 that share the edge
  between the vertices 0 and 1, the edge check answers "not unique" when the second face
  is hidden and "unique" when the first one is, while the vertex check answers "unique".
\<close>

theorem check_unique_face_set_for_edge_asymmetric:
  "sculpt_check_unique_face_set_for_edge_in_base_mesh example_session 0 1 = Inr False \<and>
   sculpt_check_unique_face_set_for_edge_in_base_mesh
     (example_session\<lparr>face_sets := (\<lambda>i. if i = 0 then - 1 else if i = 1 then 1 else 0)\<rparr>) 0 1 = Inr True \<and>
   sculpt_check_unique_face_set_in_base_mesh example_session 0 = Inr True"
  by code_simp


text \<open>
  Claim C8 as stated fails: after the cs (0, 1) and (2, 1) on an unassigned table, the
  entry of vertex 0 is 1 and the entry of vertex 1 is 2.
\<close>

theorem fake_neighbor_add_not_symmetric:
  "fake_neighbor_index
     (fake_neighbor_add_calls (SCULPT_fake_neighbor_init example_session 1) [(0, 1), (2, 1)]) 0 = 1 \<and>
   fake_neighbor_index
     (fake_neighbor_add_calls (SCULPT_fake_neighbor_init example_session 1) [(0, 1), (2, 1)]) 1 = 2"
  by (simp add: SCULPT_fake_neighbor_init_def SCULPT_fake_neighbor_add_def example_session_def
      FAKE_NEIGHBOR_NONE_def)

lemma fake_neighbor_add_index [simp]:
  "BKE_pbvh_vertex_to_index (SCULPT_fake_neighbor_add s a b) = BKE_pbvh_vertex_to_index s"
  by (rule ext) (simp add: BKE_pbvh_vertex_to_index_def SCULPT_fake_neighbor_add_def Let_def)

lemma fake_neighbor_add_table:
  "fake_neighbor_index (SCULPT_fake_neighbor_add s a b) =
     (if fake_neighbor_index s (BKE_pbvh_vertex_to_index s a) = FAKE_NEIGHBOR_NONE
      then (fake_neighbor_index s)(BKE_pbvh_vertex_to_index s a := b, BKE_pbvh_vertex_to_index s b := a)
      else fake_neighbor_index s)"
  by (simp add: BKE_pbvh_vertex_to_index_def SCULPT_fake_neighbor_add_def Let_def)

lemma fake_neighbor_add_linked:
  assumes inj: "inj (BKE_pbvh_vertex_to_index s)"
    and J: "fake_neighbors_linked s"
    and a: "a \<noteq> PBVH_REF_NONE" and b: "b \<noteq> PBVH_REF_NONE"
    and fresh: "fake_neighbor_index s (BKE_pbvh_vertex_to_index s a) = FAKE_NEIGHBOR_NONE \<longrightarrow>
       fake_neighbor_index s (BKE_pbvh_vertex_to_index s b) = FAKE_NEIGHBOR_NONE"
  shows "fake_neighbors_linked (SCULPT_fake_neighbor_add s a b)"
proof (cases "fake_neighbor_index s (BKE_pbvh_vertex_to_index s a) = FAKE_NEIGHBOR_NONE")
  case False
  then have "SCULPT_fake_neighbor_add s a b = s"
    by (simp add: BKE_pbvh_vertex_to_index_def SCULPT_fake_neighbor_add_def Let_def)
  with J show ?thesis by simp
next
  case True
  let ?ix = "BKE_pbvh_vertex_to_index s"
  let ?t = "fake_neighbor_index s"
  let ?t' = "(?t)(?ix a := b, ?ix b := a)"
  from True fresh have tb: "?t (?ix b) = FAKE_NEIGHBOR_NONE" by simp
  from J have link: "\<And>x y. ?t (?ix x) = y \<Longrightarrow> y \<noteq> FAKE_NEIGHBOR_NONE \<Longrightarrow> ?t (?ix y) = x"
    and none: "?t (?ix PBVH_REF_NONE) = FAKE_NEIGHBOR_NONE"
    unfolding fake_neighbors_linked_def by blast+
  have eq: "?ix x = ?ix y \<longleftrightarrow> x = y" for x y
    using inj by (simp add: inj_eq)
  have N: "PBVH_REF_NONE = FAKE_NEIGHBOR_NONE"
    by (simp add: PBVH_REF_NONE_def FAKE_NEIGHBOR_NONE_def)
  have 1: "?t' (?ix y) = x" if xy: "?t' (?ix x) = y" and y: "y \<noteq> FAKE_NEIGHBOR_NONE" for x y
  proof (cases "x = b")
    case xb: True
    with xy have "y = a" by simp
    with xb show ?thesis by (simp add: eq)
  next
    case xb: False
    show ?thesis
    proof (cases "x = a")
      case True
      with xb xy have "y = b" by (simp add: eq)
      with True show ?thesis by simp
    next
      case xa: False
      with xb xy have old: "?t (?ix x) = y" by (simp add: eq)
      from link [OF old y] have bk: "?t (?ix y) = x" .
      have "y \<noteq> a"
      proof
        assume "y = a"
        with bk True have "x = FAKE_NEIGHBOR_NONE" by simp
        with old none N y show False by simp
      qed
      moreover have "y \<noteq> b"
      proof
        assume "y = b"
        with bk tb have "x = FAKE_NEIGHBOR_NONE" by simp
        with old none N y show False by simp
      qed
      ultimately show ?thesis using bk by (simp add: eq)
    qed
  qed
  have 2: "?t' (?ix PBVH_REF_NONE) = FAKE_NEIGHBOR_NONE"
    using none a b by (simp add: eq)
  from 1 2 True show ?thesis
    unfolding fake_neighbors_linked_def by (simp add: fake_neighbor_add_table)
qed

lemma fake_neighbor_add_calls_linked:
  "inj (BKE_pbvh_vertex_to_index s) \<Longrightarrow> fake_neighbors_linked s \<Longrightarrow>
   fake_neighbor_calls_fresh s cs \<Longrightarrow>
   fake_neighbors_linked (fake_neighbor_add_calls s cs)"
proof (induction cs arbitrary: s)
  case Nil
  then show ?case by simp
next
  case (Cons c cs)
  obtain a b where c: "c = (a, b)" by (cases c)
  from Cons.prems c have "fake_neighbors_linked (SCULPT_fake_neighbor_add s a b)"
    by (intro fake_neighbor_add_linked) simp_all
  with Cons.IH [of "SCULPT_fake_neighbor_add s a b"] Cons.prems c show ?case by simp
qed

lemma fake_neighbor_add_calls_index [simp]:
  "BKE_pbvh_vertex_to_index (fake_neighbor_add_calls s cs) = BKE_pbvh_vertex_to_index s"
  by (induction cs arbitrary: s) auto

text \<open>
  Claim C8, amended. After any sequence of cs of \<^verbatim>\<open>SCULPT_fake_neighbor_add\<close> that
  starts from an unassigned table, in which every call is on two vertices and finds the
  second vertex unassigned whenever it assigns the first, the table is symmetric: if the
  entry of vertex \<open>a\<close> is \<open>b\<close> then the entry of \<open>b\<close> is \<open>a\<close>. (Distinct vertices have
  distinct indices.)
\<close>

theorem fake_neighbor_add_symmetric:
  assumes "inj (BKE_pbvh_vertex_to_index s)"
    and "fake_neighbor_calls_fresh (SCULPT_fake_neighbor_init s max_dist) cs"
    and "fake_neighbor_index
           (fake_neighbor_add_calls (SCULPT_fake_neighbor_init s max_dist) cs)
           (BKE_pbvh_vertex_to_index s a) = b"
    and "b \<noteq> FAKE_NEIGHBOR_NONE"
  shows "fake_neighbor_index
           (fake_neighbor_add_calls (SCULPT_fake_neighbor_init s max_dist) cs)
           (BKE_pbvh_vertex_to_index s b) = a"
proof -
  let ?s0 = "SCULPT_fake_neighbor_init s max_dist"
  have ix: "BKE_pbvh_vertex_to_index ?s0 = BKE_pbvh_vertex_to_index s"
    by (rule ext) (simp add: BKE_pbvh_vertex_to_index_def SCULPT_fake_neighbor_init_def)
  have "fake_neighbors_linked ?s0"
    by (simp add: fake_neighbors_linked_def SCULPT_fake_neighbor_init_def)
  with assms(1,2) ix have "fake_neighbors_linked (fake_neighbor_add_calls ?s0 cs)"
    by (intro fake_neighbor_add_calls_linked) simp_all
  then have "\<And>x y. fake_neighbor_index (fake_neighbor_add_calls ?s0 cs)
                 (BKE_pbvh_vertex_to_index (fake_neighbor_add_calls ?s0 cs) x) = y \<Longrightarrow>
               y \<noteq> FAKE_NEIGHBOR_NONE \<Longrightarrow>
               fake_neighbor_index (fake_neighbor_add_calls ?s0 cs)
                 (BKE_pbvh_vertex_to_index (fake_neighbor_add_calls ?s0 cs) y) = x"
    unfolding fake_neighbors_linked_def by blast
  from this [of a b] assms(3,4) show ?thesis by (simp add: ix)
qed

theorem fake_neighbor_add_symmetric_witness:
  "inj (BKE_pbvh_vertex_to_index example_session) \<and>
   fake_neighbor_calls_fresh (SCULPT_fake_neighbor_init example_session 1) [(0, 1), (2, 3), (1, 2)] \<and>
   fake_neighbor_index
     (fake_neighbor_add_calls (SCULPT_fake_neighbor_init example_session 1) [(0, 1), (2, 3), (1, 2)])
     (BKE_pbvh_vertex_to_index example_session 3) = 2 \<and>
   fake_neighbor_index
     (fake_neighbor_add_calls (SCULPT_fake_neighbor_init example_session 1) [(0, 1), (2, 3), (1, 2)])
     (BKE_pbvh_vertex_to_index example_session 2) = 3"
proof -
  have ix: "BKE_pbvh_vertex_to_index example_session = (\<lambda>v. v)"
    by (rule ext) (simp add: BKE_pbvh_vertex_to_index_def example_session_def)
  have i: "inj (BKE_pbvh_vertex_to_index example_session)"
    by (simp add: ix)
  have f: "fake_neighbor_calls_fresh (SCULPT_fake_neighbor_init example_session 1) [(0, 1), (2, 3), (1, 2)]"
    by (simp add: SCULPT_fake_neighbor_init_def SCULPT_fake_neighbor_add_def example_session_def
      FAKE_NEIGHBOR_NONE_def PBVH_REF_NONE_def BKE_pbvh_vertex_to_index_def)
  have e: "fake_neighbor_index
     (fake_neighbor_add_calls (SCULPT_fake_neighbor_init example_session 1) [(0, 1), (2, 3), (1, 2)])
     (BKE_pbvh_vertex_to_index example_session 2) = 3"
    by (simp add: SCULPT_fake_neighbor_init_def SCULPT_fake_neighbor_add_def example_session_def
      FAKE_NEIGHBOR_NONE_def BKE_pbvh_vertex_to_index_def)
  have n: "(3::int) \<noteq> FAKE_NEIGHBOR_NONE" by (simp add: FAKE_NEIGHBOR_NONE_def)
  from fake_neighbor_add_symmetric [OF i f e n] i f e show ?thesis by simp
qed


theorem face_sets_visibility_all_set_signs_witness:
  "INT_MIN \<notin> set (session_face_set_values example_face_sets) \<and>
   (\<exists>s'. SCULPT_face_sets_visibility_all_set example_face_sets False = Inr s' \<and>
      map sint (session_face_set_values s') = [- 1, - 5, - 7])"
proof -
  have v: "session_face_set_values example_face_sets = [0, - 5, 7]"
    by code_simp
  have n: "INT_MIN \<notin> set (session_face_set_values example_face_sets)"
    unfolding v by (simp add: INT_MIN_def)
  have m: "map (face_set_all_set_spec False) [0, - 5, 7] = [- 1, - 5, - 7]"
    by (simp add: face_set_all_set_spec_def)
  from face_sets_visibility_all_set_signs [of example_face_sets False] n
  obtain s' where "SCULPT_face_sets_visibility_all_set example_face_sets False = Inr s'"
    and "map sint (session_face_set_values s') =
         map (face_set_all_set_spec False) (session_face_set_values example_face_sets)"
    by blast
  with n m show ?thesis unfolding v by auto
qed

subsection \<open>Fake-neighbour search\<close>

lemma search_vertex_inv:
  assumes "search_inv s co m T G t" and "vd \<in> G"
  shows "search_inv s co m T G (fake_neighbor_search_vertex s co m t vd)"
    and "nearest_vertex_distance_squared (fake_neighbor_search_vertex s co m t vd) \<le>
         nearest_vertex_distance_squared t"
    and "SCULPT_vertex_get_connected_component s (vd_vertex vd) \<noteq> T \<Longrightarrow>
         fake_neighbor_index s (vd_index vd) = FAKE_NEIGHBOR_NONE \<Longrightarrow>
         len_squared_v3v3 (vd_co vd) co < m \<Longrightarrow>
         nearest_vertex_distance_squared (fake_neighbor_search_vertex s co m t vd) \<le>
           len_squared_v3v3 (vd_co vd) co"
  using assms
  by (auto simp: search_inv_def fake_neighbor_search_vertex_def Let_def)

lemma search_node_inv:
  "search_inv s co m T G t \<Longrightarrow> set node \<subseteq> G \<Longrightarrow>
   search_inv s co m T G (do_fake_neighbor_search_task_cb s co m node t) \<and>
   nearest_vertex_distance_squared (do_fake_neighbor_search_task_cb s co m node t) \<le>
     nearest_vertex_distance_squared t \<and>
   (\<forall>vd \<in> set node.
      SCULPT_vertex_get_connected_component s (vd_vertex vd) \<noteq> T \<and>
      fake_neighbor_index s (vd_index vd) = FAKE_NEIGHBOR_NONE \<and>
      len_squared_v3v3 (vd_co vd) co < m \<longrightarrow>
      nearest_vertex_distance_squared (do_fake_neighbor_search_task_cb s co m node t) \<le>
        len_squared_v3v3 (vd_co vd) co)"
  unfolding do_fake_neighbor_search_task_cb_def
proof (induction node arbitrary: t)
  case Nil
  then show ?case by simp
next
  case (Cons vd node)
  let ?t1 = "fake_neighbor_search_vertex s co m t vd"
  from Cons.prems have vd: "vd \<in> G" and sub: "set node \<subseteq> G" by simp_all
  note step = search_vertex_inv [OF Cons.prems(1) vd]
  from Cons.IH [OF step(1) sub] step(2,3) show ?case
    by (auto intro: order_trans)
qed

lemma search_chunk_inv:
  "search_inv s co m T G t \<Longrightarrow> set (concat chunk) \<subseteq> G \<Longrightarrow>
   search_inv s co m T G
     (foldl (\<lambda>tls n. do_fake_neighbor_search_task_cb s co m n tls) t chunk) \<and>
   nearest_vertex_distance_squared
     (foldl (\<lambda>tls n. do_fake_neighbor_search_task_cb s co m n tls) t chunk) \<le>
     nearest_vertex_distance_squared t \<and>
   (\<forall>vd \<in> set (concat chunk).
      SCULPT_vertex_get_connected_component s (vd_vertex vd) \<noteq> T \<and>
      fake_neighbor_index s (vd_index vd) = FAKE_NEIGHBOR_NONE \<and>
      len_squared_v3v3 (vd_co vd) co < m \<longrightarrow>
      nearest_vertex_distance_squared
        (foldl (\<lambda>tls n. do_fake_neighbor_search_task_cb s co m n tls) t chunk) \<le>
        len_squared_v3v3 (vd_co vd) co)"
proof (induction chunk arbitrary: t)
  case Nil
  then show ?case by simp
next
  case (Cons node chunk)
  let ?t1 = "do_fake_neighbor_search_task_cb s co m node t"
  from Cons.prems have n: "set node \<subseteq> G" and sub: "set (concat chunk) \<subseteq> G" by simp_all
  from search_node_inv [OF Cons.prems(1) n]
  have 1: "search_inv s co m T G ?t1"
    and 2: "nearest_vertex_distance_squared ?t1 \<le> nearest_vertex_distance_squared t"
    and 3: "\<forall>vd \<in> set node.
      SCULPT_vertex_get_connected_component s (vd_vertex vd) \<noteq> T \<and>
      fake_neighbor_index s (vd_index vd) = FAKE_NEIGHBOR_NONE \<and>
      len_squared_v3v3 (vd_co vd) co < m \<longrightarrow>
      nearest_vertex_distance_squared ?t1 \<le> len_squared_v3v3 (vd_co vd) co"
    by blast+
  from Cons.IH [OF 1 sub] 2 3 show ?case
    by (auto intro: order_trans)
qed

lemma search_reduce_inv:
  assumes "search_inv s co m T G join" and "search_inv s co m T G nvtd"
  shows "search_inv s co m T G (fake_neighbor_search_reduce join nvtd)"
    and "\<forall>vd \<in> G. vd_vertex vd \<noteq> PBVH_REF_NONE \<Longrightarrow>
         nearest_vertex_distance_squared (fake_neighbor_search_reduce join nvtd) \<le>
           nearest_vertex_distance_squared join \<and>
         nearest_vertex_distance_squared (fake_neighbor_search_reduce join nvtd) \<le>
           nearest_vertex_distance_squared nvtd"
  using assms
  by (auto simp: search_inv_def fake_neighbor_search_reduce_def)

lemma search_reduce_all_inv:
  "search_inv s co m T G join \<Longrightarrow> \<forall>t \<in> set ts. search_inv s co m T G t \<Longrightarrow>
   search_inv s co m T G (foldl fake_neighbor_search_reduce join ts) \<and>
   ((\<forall>vd \<in> G. vd_vertex vd \<noteq> PBVH_REF_NONE) \<longrightarrow>
      nearest_vertex_distance_squared (foldl fake_neighbor_search_reduce join ts) \<le>
        nearest_vertex_distance_squared join \<and>
      (\<forall>t \<in> set ts.
         nearest_vertex_distance_squared (foldl fake_neighbor_search_reduce join ts) \<le>
           nearest_vertex_distance_squared t))"
proof (induction ts arbitrary: join)
  case Nil
  then show ?case by simp
next
  case (Cons t ts)
  from Cons.prems have t: "search_inv s co m T G t" and ts: "\<forall>t \<in> set ts. search_inv s co m T G t"
    by simp_all
  note r = search_reduce_inv [OF Cons.prems(1) t]
  from Cons.IH [OF r(1) ts] r(2) show ?case
    by (auto intro: order_trans)
qed

lemma search_parallel_inv:
  assumes inv: "search_inv s co m T G t" and sub: "set (concat (concat chunks)) \<subseteq> G"
  shows "search_inv s co m T G
           (BLI_task_parallel_range (do_fake_neighbor_search_task_cb s co m)
              fake_neighbor_search_reduce threaded chunks t)"
    (is "search_inv s co m T G ?r")
    and "(\<forall>vd \<in> G. vd_vertex vd \<noteq> PBVH_REF_NONE) \<Longrightarrow>
         \<forall>vd \<in> set (concat (concat chunks)).
           SCULPT_vertex_get_connected_component s (vd_vertex vd) \<noteq> T \<and>
           fake_neighbor_index s (vd_index vd) = FAKE_NEIGHBOR_NONE \<and>
           len_squared_v3v3 (vd_co vd) co < m \<longrightarrow>
           nearest_vertex_distance_squared
             (BLI_task_parallel_range (do_fake_neighbor_search_task_cb s co m)
                fake_neighbor_search_reduce threaded chunks t) \<le>
             len_squared_v3v3 (vd_co vd) co"
proof -
  let ?cb = "\<lambda>tls n. do_fake_neighbor_search_task_cb s co m n tls"
  have serial: "search_inv s co m T G (foldl ?cb t (concat chunks)) \<and>
     (\<forall>vd \<in> set (concat (concat chunks)).
        SCULPT_vertex_get_connected_component s (vd_vertex vd) \<noteq> T \<and>
        fake_neighbor_index s (vd_index vd) = FAKE_NEIGHBOR_NONE \<and>
        len_squared_v3v3 (vd_co vd) co < m \<longrightarrow>
        nearest_vertex_distance_squared (foldl ?cb t (concat chunks)) \<le>
          len_squared_v3v3 (vd_co vd) co)"
    using search_chunk_inv [OF inv sub] by blast
  have each: "search_inv s co m T G (foldl ?cb t chunk) \<and>
     (\<forall>vd \<in> set (concat chunk).
        SCULPT_vertex_get_connected_component s (vd_vertex vd) \<noteq> T \<and>
        fake_neighbor_index s (vd_index vd) = FAKE_NEIGHBOR_NONE \<and>
        len_squared_v3v3 (vd_co vd) co < m \<longrightarrow>
        nearest_vertex_distance_squared (foldl ?cb t chunk) \<le> len_squared_v3v3 (vd_co vd) co)"
    if "chunk \<in> set chunks" for chunk
  proof -
    from that sub have "set (concat chunk) \<subseteq> G" by auto
    from search_chunk_inv [OF inv this] show ?thesis by blast
  qed
  let ?ts = "map (foldl ?cb t) chunks"
  have all: "\<forall>u \<in> set ?ts. search_inv s co m T G u"
    using each by auto
  note red = search_reduce_all_inv [OF inv all]
  show "search_inv s co m T G ?r"
    using serial red by (simp add: BLI_task_parallel_range_def)
  show "\<forall>vd \<in> set (concat (concat chunks)).
           SCULPT_vertex_get_connected_component s (vd_vertex vd) \<noteq> T \<and>
           fake_neighbor_index s (vd_index vd) = FAKE_NEIGHBOR_NONE \<and>
           len_squared_v3v3 (vd_co vd) co < m \<longrightarrow>
           nearest_vertex_distance_squared ?r \<le> len_squared_v3v3 (vd_co vd) co"
    if refs: "\<forall>vd \<in> G. vd_vertex vd \<noteq> PBVH_REF_NONE"
  proof (cases threaded)
    case False
    with serial show ?thesis by (simp add: BLI_task_parallel_range_def)
  next
    case True
    show ?thesis
    proof (intro ballI impI)
      fix vd assume vd: "vd \<in> set (concat (concat chunks))"
        and c: "SCULPT_vertex_get_connected_component s (vd_vertex vd) \<noteq> T \<and>
           fake_neighbor_index s (vd_index vd) = FAKE_NEIGHBOR_NONE \<and>
           len_squared_v3v3 (vd_co vd) co < m"
      from vd obtain chunk where ch: "chunk \<in> set chunks" and "vd \<in> set (concat chunk)"
        by auto
      with each [OF ch] c
      have 1: "nearest_vertex_distance_squared (foldl ?cb t chunk) \<le> len_squared_v3v3 (vd_co vd) co"
        by blast
      from ch have "foldl ?cb t chunk \<in> set ?ts" by simp
      with red refs have "nearest_vertex_distance_squared (foldl fake_neighbor_search_reduce t ?ts) \<le>
          nearest_vertex_distance_squared (foldl ?cb t chunk)"
        by blast
      with 1 True show "nearest_vertex_distance_squared ?r \<le> len_squared_v3v3 (vd_co vd) co"
        by (simp add: BLI_task_parallel_range_def)
    qed
  qed
qed

text \<open>
  Claim C9. Provided the task library runs the callback on the gathered nodes,
  \<^verbatim>\<open>SCULPT_fake_neighbor_search\<close> returns \<^verbatim>\<open>PBVH_REF_NONE\<close> or the vertex of a
  candidate: a gathered vertex of another connected component than the source, without
  a fake neighbour, strictly within the maximum distance. It returns the sentinel when
  there is no candidate, never a vertex of the component of the source, and it does
  return a vertex when there is a candidate (no gathered vertex being the sentinel, and
  the squared maximum distance being a finite float).
\<close>

theorem fake_neighbor_search_result:
  assumes chunks: "set (concat (task_chunks X (BKE_pbvh_search_gather X s
                      (SCULPT_vertex_co_get X s vertex) (max_distance * max_distance)))) =
                   set (BKE_pbvh_search_gather X s
                      (SCULPT_vertex_co_get X s vertex) (max_distance * max_distance))"
  shows "(SCULPT_fake_neighbor_search X s vertex max_distance = PBVH_REF_NONE \<or>
          (\<exists>vd \<in> search_gathered X s vertex max_distance.
             vd_vertex vd = SCULPT_fake_neighbor_search X s vertex max_distance \<and>
             fake_neighbor_candidate X s vertex max_distance vd)) \<and>
         ((\<forall>vd \<in> search_gathered X s vertex max_distance.
             \<not> fake_neighbor_candidate X s vertex max_distance vd) \<longrightarrow>
          SCULPT_fake_neighbor_search X s vertex max_distance = PBVH_REF_NONE) \<and>
         (SCULPT_fake_neighbor_search X s vertex max_distance \<noteq> PBVH_REF_NONE \<longrightarrow>
          SCULPT_vertex_get_connected_component s (SCULPT_fake_neighbor_search X s vertex max_distance) \<noteq>
            SCULPT_vertex_get_connected_component s vertex) \<and>
         ((\<exists>vd \<in> search_gathered X s vertex max_distance.
             fake_neighbor_candidate X s vertex max_distance vd) \<and>
          (\<forall>vd \<in> search_gathered X s vertex max_distance. vd_vertex vd \<noteq> PBVH_REF_NONE) \<and>
          max_distance * max_distance \<le> FLT_MAX \<longrightarrow>
          SCULPT_fake_neighbor_search X s vertex max_distance \<noteq> PBVH_REF_NONE)"
proof -
  let ?co = "SCULPT_vertex_co_get X s vertex"
  let ?m = "max_distance * max_distance"
  let ?nodes = "BKE_pbvh_search_gather X s ?co ?m"
  let ?G = "search_gathered X s vertex max_distance"
  let ?T = "SCULPT_vertex_get_connected_component s vertex"
  let ?r = "SCULPT_fake_neighbor_search X s vertex max_distance"
  let ?init = "\<lparr>nearest_vertex = - 1, nearest_vertex_distance_squared = FLT_MAX,
                 current_topology_id = ?T\<rparr>"
  let ?t = "BLI_task_parallel_range (do_fake_neighbor_search_task_cb s ?co ?m)
              fake_neighbor_search_reduce (use_threading X) (task_chunks X ?nodes) ?init"
  have G: "?G = set (concat ?nodes)" by (simp add: search_gathered_def)
  have sub: "set (concat (concat (task_chunks X ?nodes))) \<subseteq> ?G"
    using chunks unfolding G by auto
  have sup: "?G \<subseteq> set (concat (concat (task_chunks X ?nodes)))"
    using chunks unfolding G by auto
  have init: "search_inv s ?co ?m ?T ?G ?init"
    by (simp add: search_inv_def PBVH_REF_NONE_def)
  note par = search_parallel_inv [OF init sub, of "use_threading X"]
  have r: "?r = (if ?nodes = [] then PBVH_REF_NONE else nearest_vertex ?t)"
    by (simp add: SCULPT_fake_neighbor_search_def Let_def)
  have empty: "?nodes = [] \<Longrightarrow> ?G = {}" by (simp add: G)
  have 1: "?r = PBVH_REF_NONE \<or>
          (\<exists>vd \<in> ?G. vd_vertex vd = ?r \<and> fake_neighbor_candidate X s vertex max_distance vd)"
  proof (cases "?nodes = []")
    case True
    with r show ?thesis by simp
  next
    case False
    with r have "?r = nearest_vertex ?t" by simp
    with par(1) show ?thesis
      unfolding search_inv_def fake_neighbor_candidate_def by auto
  qed
  then have 2: "(\<forall>vd \<in> ?G. \<not> fake_neighbor_candidate X s vertex max_distance vd) \<longrightarrow>
          ?r = PBVH_REF_NONE"
    by blast
  from 1 have 3: "?r \<noteq> PBVH_REF_NONE \<longrightarrow> SCULPT_vertex_get_connected_component s ?r \<noteq> ?T"
    unfolding fake_neighbor_candidate_def by auto
  have 4: "(\<exists>vd \<in> ?G. fake_neighbor_candidate X s vertex max_distance vd) \<and>
          (\<forall>vd \<in> ?G. vd_vertex vd \<noteq> PBVH_REF_NONE) \<and> ?m \<le> FLT_MAX \<longrightarrow>
          ?r \<noteq> PBVH_REF_NONE"
  proof (intro impI, elim conjE bexE)
    fix vd assume vd: "vd \<in> ?G" and c: "fake_neighbor_candidate X s vertex max_distance vd"
      and refs: "\<forall>vd \<in> ?G. vd_vertex vd \<noteq> PBVH_REF_NONE" and m: "?m \<le> FLT_MAX"
    from vd empty have ne: "?nodes \<noteq> []" by auto
    from vd sup have "vd \<in> set (concat (concat (task_chunks X ?nodes)))" by (rule rev_subsetD)
    with par(2) [OF refs] c
    have "nearest_vertex_distance_squared ?t \<le> len_squared_v3v3 (vd_co vd) ?co"
      unfolding fake_neighbor_candidate_def by blast
    with c m have "nearest_vertex_distance_squared ?t < FLT_MAX"
      unfolding fake_neighbor_candidate_def by linarith
    with par(1) refs have "nearest_vertex ?t \<noteq> PBVH_REF_NONE"
      unfolding search_inv_def by auto
    with r ne show "?r \<noteq> PBVH_REF_NONE" by simp
  qed
  from 1 2 3 4 show ?thesis by blast
qed


theorem fake_neighbor_search_result_witness:
  "set (concat (task_chunks search_example_extern
          (BKE_pbvh_search_gather search_example_extern search_example_session
             (SCULPT_vertex_co_get search_example_extern search_example_session 0) (4 * 4)))) =
   set (BKE_pbvh_search_gather search_example_extern search_example_session
          (SCULPT_vertex_co_get search_example_extern search_example_session 0) (4 * 4)) \<and>
   SCULPT_fake_neighbor_search search_example_extern search_example_session 0 4 = 3 \<and>
   SCULPT_vertex_get_connected_component search_example_session 3 \<noteq>
     SCULPT_vertex_get_connected_component search_example_session 0"
proof -
  have h: "set (concat (task_chunks search_example_extern
          (BKE_pbvh_search_gather search_example_extern search_example_session
             (SCULPT_vertex_co_get search_example_extern search_example_session 0) (4 * 4)))) =
   set (BKE_pbvh_search_gather search_example_extern search_example_session
          (SCULPT_vertex_co_get search_example_extern search_example_session 0) (4 * 4))"
    by (simp add: search_example_extern_def)
  have e: "SCULPT_fake_neighbor_search search_example_extern search_example_session 0 4 = 3"
    by (simp add: SCULPT_fake_neighbor_search_def search_example_extern_def
        search_example_session_def example_session_def search_example_vertex_def
        BLI_task_parallel_range_def do_fake_neighbor_search_task_cb_def
        fake_neighbor_search_vertex_def fake_neighbor_search_reduce_def
        SCULPT_vertex_get_connected_component_def len_squared_v3v3_def
        FLT_MAX_def PBVH_REF_NONE_def FAKE_NEIGHBOR_NONE_def)
  have n: "(3::int) \<noteq> PBVH_REF_NONE" by (simp add: PBVH_REF_NONE_def)
  from fake_neighbor_search_result [OF h] e n h show ?thesis by simp
qed

subsection \<open>Symmetry feather\<close>

lemma calc_overlap_score:
  assumes r: "0 < cache_radius cache"
    and sq: "cache_radius_squared cache = cache_radius cache * cache_radius cache"
  shows "calc_overlap X cache symm axis angle =
         overlap_score (cache_radius cache) (true_location cache)
           (if axis \<noteq> 0
            then axis_angle_to_mat3_single X axis angle (flip_v3_v3 X (true_location cache) symm)
            else flip_v3_v3 X (true_location cache) symm)"
proof -
  let ?p = "if axis \<noteq> 0
            then axis_angle_to_mat3_single X axis angle (flip_v3_v3 X (true_location cache) symm)
            else flip_v3_v3 X (true_location cache) symm"
  let ?d = "len_squared_v3v3 ?p (true_location cache)"
  let ?r = "cache_radius cache"
  have d0: "0 \<le> ?d" by (rule len_squared_v3v3_nonneg)
  have e: "4 * cache_radius_squared cache = (2 * ?r)\<^sup>2"
    by (simp add: sq power2_eq_square)
  have "sqrt ?d \<le> sqrt ((2 * ?r)\<^sup>2) \<longleftrightarrow> ?d \<le> (2 * ?r)\<^sup>2"
    by (rule real_sqrt_le_iff)
  moreover have "sqrt ((2 * ?r)\<^sup>2) = 2 * ?r"
    using r real_sqrt_abs [of "2 * ?r"] by simp
  ultimately have le: "?d \<le> 4 * cache_radius_squared cache \<longleftrightarrow> sqrt ?d \<le> 2 * ?r"
    by (simp only: e)
  have "calc_overlap X cache symm axis angle =
        (if sqrt ?d \<le> 2 * ?r then (2 * ?r - sqrt ?d) / (2 * ?r) else 0)"
    using r le by (simp add: calc_overlap_def Let_def)
  also have "\<dots> = overlap_score ?r (true_location cache) ?p"
    by (auto simp: overlap_score_def Let_def)
  finally show ?thesis .
qed


lemma foldl_add_sum_list:
  "foldl (\<lambda>a i. a + f i) (a0 :: real) xs = a0 + sum_list (map f xs)"
  by (induction xs arbitrary: a0) simp_all

lemma foldl_add_filter_sum_list:
  "foldl (\<lambda>a i. if \<not> P i then a else a + f1 i + f2 i + f3 i + f4 i) (a0 :: real) xs =
   a0 + sum_list (map (\<lambda>i. f1 i + f2 i + f3 i + f4 i) (filter P xs))"
  by (induction xs arbitrary: a0) simp_all

lemma sum_list_map_concat:
  "sum_list (map f (concat (map g xs))) = (sum_list (map (\<lambda>x. sum_list (map f (g x))) xs) :: real)"
  by (induction xs) simp_all

lemma calc_radial_symmetry_feather_sum:
  assumes r: "0 < cache_radius cache"
    and sq: "cache_radius_squared cache = cache_radius cache * cache_radius cache"
    and axis: "axis \<noteq> 0"
  shows "calc_radial_symmetry_feather X sd cache symm axis =
         sum_list (map (overlap_score (cache_radius cache) (true_location cache))
           (radial_instances X sd (flip_v3_v3 X (true_location cache) symm) axis))"
  using axis
  by (simp add: calc_radial_symmetry_feather_def Let_def foldl_add_sum_list
      calc_overlap_score [OF r sq] radial_instances_def comp_def)

text \<open>
  Claim C4. For a stroke cache with radius \<open>r > 0\<close> (and \<^verbatim>\<open>radius_squared\<close> its square),
  \<^verbatim>\<open>calc_symmetry_feather\<close> is 1 when the feather option is off, and otherwise 1 over the
  sum of the overlap scores of all valid symmetry and radial instances, or 1 when that sum
  is zero; \<^verbatim>\<open>calc_overlap\<close> is the overlap score of the transformed centre,
  \<open>(2r - |\<Delta>|) / (2r)\<close> when \<open>|\<Delta>| < 2r\<close> and 0 otherwise.
\<close>

theorem symmetry_feather_is_inverse_overlap:
  assumes r: "0 < cache_radius cache"
    and sq: "cache_radius_squared cache = cache_radius cache * cache_radius cache"
  shows "calc_symmetry_feather X sd cache =
           (if symmetry_flags sd AND PAINT_SYMMETRY_FEATHER X = 0 then 1
            else symmetry_feather_spec X sd cache) \<and>
         calc_overlap X cache symm axis angle =
           overlap_score (cache_radius cache) (true_location cache)
             (if axis \<noteq> 0
              then axis_angle_to_mat3_single X axis angle (flip_v3_v3 X (true_location cache) symm)
              else flip_v3_v3 X (true_location cache) symm)"
proof -
  let ?ov = "overlap_score (cache_radius cache) (true_location cache)"
  let ?valid = "\<lambda>i. SCULPT_is_symmetry_iteration_valid (of_int i) (of_int (symmetry cache))"
  let ?g = "\<lambda>i. calc_overlap X cache (of_int i) 0 0
                + calc_radial_symmetry_feather X sd cache (of_int i) 88
                + calc_radial_symmetry_feather X sd cache (of_int i) 89
                + calc_radial_symmetry_feather X sd cache (of_int i) 90"
  let ?inst = "\<lambda>i. (let p = flip_v3_v3 X (true_location cache) (of_int i) in
          p # radial_instances X sd p 88 @ radial_instances X sd p 89 @ radial_instances X sd p 90)"
  have g: "?g i = sum_list (map ?ov (?inst i))" for i
    by (simp add: calc_overlap_score [OF r sq] calc_radial_symmetry_feather_sum [OF r sq] Let_def)
  have "foldl (\<lambda>overlap i. if \<not> ?valid i then overlap else overlap + calc_overlap X cache (of_int i) 0 0
                + calc_radial_symmetry_feather X sd cache (of_int i) 88
                + calc_radial_symmetry_feather X sd cache (of_int i) 89
                + calc_radial_symmetry_feather X sd cache (of_int i) 90) 0 [0..symmetry cache] =
        sum_list (map ?g (filter ?valid [0..symmetry cache]))"
    by (simp only: foldl_add_filter_sum_list add_0)
  also have "\<dots> = sum_list (map (\<lambda>i. sum_list (map ?ov (?inst i))) (filter ?valid [0..symmetry cache]))"
    by (simp only: g)
  also have "\<dots> = sum_list (map ?ov (symmetry_instances X sd cache))"
    by (simp only: symmetry_instances_def sum_list_map_concat)
  finally have total: "foldl (\<lambda>overlap i. if \<not> ?valid i then overlap else overlap + calc_overlap X cache (of_int i) 0 0
                + calc_radial_symmetry_feather X sd cache (of_int i) 88
                + calc_radial_symmetry_feather X sd cache (of_int i) 89
                + calc_radial_symmetry_feather X sd cache (of_int i) 90) 0 [0..symmetry cache] =
        sum_list (map ?ov (symmetry_instances X sd cache))" .
  have "calc_symmetry_feather X sd cache =
           (if symmetry_flags sd AND PAINT_SYMMETRY_FEATHER X = 0 then 1
            else symmetry_feather_spec X sd cache)"
    unfolding calc_symmetry_feather_def symmetry_feather_spec_def Let_def total by simp
  with calc_overlap_score [OF r sq] show ?thesis by blast
qed


theorem symmetry_feather_is_inverse_overlap_witness:
  "0 < cache_radius feather_example_cache \<and>
   cache_radius_squared feather_example_cache =
     cache_radius feather_example_cache * cache_radius feather_example_cache \<and>
   calc_symmetry_feather feather_example_extern feather_example_sd feather_example_cache = 2 / 3 \<and>
   symmetry_feather_spec feather_example_extern feather_example_sd feather_example_cache = 2 / 3"
proof -
  have r: "0 < cache_radius feather_example_cache"
    and sq: "cache_radius_squared feather_example_cache =
     cache_radius feather_example_cache * cache_radius feather_example_cache"
    by (simp_all add: feather_example_cache_def)
  have f: "symmetry_flags feather_example_sd AND PAINT_SYMMETRY_FEATHER feather_example_extern \<noteq> 0"
    by (simp add: feather_example_sd_def feather_example_extern_def brush_example_extern_def)
  have u: "[0..1] = [0, 1 :: int]"
    by (simp add: upto.simps)
  have v: "SCULPT_is_symmetry_iteration_valid (of_int 0) (of_int 1)"
    "SCULPT_is_symmetry_iteration_valid (of_int 1) (of_int 1)"
    by (simp_all add: SCULPT_is_symmetry_iteration_valid_def)
  have rs: "radial_instances X feather_example_sd p axis = []"
    for X :: "unit brush_extern" and p axis
    by (simp add: radial_instances_def feather_example_sd_def)
  have e: "symmetry_feather_spec feather_example_extern feather_example_sd feather_example_cache = 2 / 3"
    using v
    by (simp add: symmetry_feather_spec_def symmetry_instances_def u rs overlap_score_def
        feather_example_cache_def feather_example_extern_def brush_example_extern_def
        len_squared_v3v3_def Let_def)
  from symmetry_feather_is_inverse_overlap [OF r sq, of feather_example_extern feather_example_sd]
    f e r sq
  show ?thesis by simp
qed

end
